theory Spec2Isabelle
  imports Complex_Main "HOL-Library.Word" "HOL-Library.Sublist" "HOL-Library.AList"
    "HOL-Library.Multiset"
begin

section \<open>JavaScript values\<close>

text \<open>
  A JavaScript string is a sequence of UTF-16 code units. Literals of the source that
  are ASCII are written with \<open>ascii\<close>; the Japanese ones are given by their code units.
\<close>

type_synonym jsstring = "16 word list"

definition ascii :: "string \<Rightarrow> jsstring" where
  "ascii s = map (\<lambda>c. of_char c) s"

text \<open>
  A JavaScript number, as far as the program looks at it: the program never computes
  with a stored number, it only tests it for truthiness and passes it on. The finite
  values are kept as rationals (\<open>Finite 0\<close> is \<open>+0\<close>); the four special values are
  constructors of their own.
\<close>

datatype jsnum = NaN | PosInfinity | NegInfinity | NegZero | Finite rat

datatype jsval =
    JUndefined
  | JNull
  | JBool bool
  | JNum jsnum
  | JStr jsstring
  | JArr "jsval list"
  | JObj "(jsstring \<times> jsval) list"

text \<open>
  \<open>JObj\<close> carries the own enumerable properties of a plain object in enumeration
  order. The values are the ones \<open>JSON.parse\<close> can produce, together with \<open>undefined\<close>
  and the special numbers, which a caller of an \<open>any\<close>-typed function can pass.
\<close>

fun numTruthy :: "jsnum \<Rightarrow> bool" where
  "numTruthy NaN = False"
| "numTruthy NegZero = False"
| "numTruthy (Finite q) = (q \<noteq> 0)"
| "numTruthy PosInfinity = True"
| "numTruthy NegInfinity = True"

text \<open>\<open>Boolean(v)\<close>, the test behind \<open>filter(Boolean)\<close> and \<open>||\<close>.\<close>

fun truthy :: "jsval \<Rightarrow> bool" where
  "truthy JUndefined = False"
| "truthy JNull = False"
| "truthy (JBool b) = b"
| "truthy (JNum n) = numTruthy n"
| "truthy (JStr s) = (s \<noteq> [])"
| "truthy (JArr xs) = True"
| "truthy (JObj kvs) = True"

text \<open>The test behind \<open>??\<close>: only \<open>null\<close> and \<open>undefined\<close> are nullish.\<close>

fun nullish :: "jsval \<Rightarrow> bool" where
  "nullish JUndefined = True"
| "nullish JNull = True"
| "nullish v = False"

fun isArray :: "jsval \<Rightarrow> bool" where
  "isArray (JArr xs) = True"
| "isArray v = False"

fun digits :: "nat \<Rightarrow> nat list" where
  "digits n = (if n < 10 then [n] else digits (n div 10) @ [n mod 10])"

text \<open>The property key of an array index or a string position: its decimal numeral.\<close>

definition indexKey :: "nat \<Rightarrow> jsstring" where
  "indexKey n = map (\<lambda>d. of_nat (48 + d)) (digits n)"

text \<open>
  The own enumerable properties that an object spread \<open>{...p}\<close> copies, in the order
  it copies them: those of an object, the elements of an array under their indices,
  the code units of a string under their positions, nothing for the other primitives.
\<close>

fun ownProps :: "jsval \<Rightarrow> (jsstring \<times> jsval) list" where
  "ownProps (JObj kvs) = kvs"
| "ownProps (JArr xs) = zip (map indexKey [0..<length xs]) xs"
| "ownProps (JStr s) = zip (map indexKey [0..<length s]) (map (\<lambda>c. JStr [c]) s)"
| "ownProps v = []"

definition ownProp :: "jsval \<Rightarrow> jsstring \<Rightarrow> jsval option" where
  "ownProp p k = map_of (ownProps p) k"

text \<open>
  The property read \<open>p.k\<close> of a value that is neither \<open>null\<close> nor \<open>undefined\<close>, for
  a key that the built-in prototypes do not define (\<open>category\<close> and \<open>quantity\<close> are
  such keys): the own property, or \<open>undefined\<close>.
\<close>

definition getProp :: "jsval \<Rightarrow> jsstring \<Rightarrow> jsval" where
  "getProp p k = (case ownProp p k of Some v \<Rightarrow> v | None \<Rightarrow> JUndefined)"

section \<open>The migration function\<close>

definition categoryKey :: jsstring where
  "categoryKey = ascii ''category''"

definition quantityKey :: jsstring where
  "quantityKey = ascii ''quantity''"

text \<open>The fallback category of the source, U+305D U+306E U+4ED6.\<close>

definition sonota :: jsstring where
  "sonota = [0x305D, 0x306E, 0x4ED6]"

text \<open>
  The object literal \<open>{...p, category: p.category || sonota, quantity: p.quantity ?? 1}\<close>:
  the spread first, then the two named properties in the order written. Writing a
  property that the spread has copied keeps its place; a new one goes to the end.
\<close>

definition migrateOne :: "jsval \<Rightarrow> jsval" where
  "migrateOne p =
     JObj (AList.update quantityKey
             (if nullish (getProp p quantityKey) then JNum (Finite 1)
              else getProp p quantityKey)
          (AList.update categoryKey
             (if truthy (getProp p categoryKey) then getProp p categoryKey
              else JStr sonota)
          (ownProps p)))"

definition migratePrizes :: "jsval \<Rightarrow> jsval list" where
  "migratePrizes parsed =
     (if \<not> isArray parsed then []
      else case parsed of
             JArr xs \<Rightarrow> map migrateOne (filter truthy xs)
           | _ \<Rightarrow> [])"

section \<open>Prize records\<close>

text \<open>
  Modelled from the spec: the types \<open>Prize\<close>, \<open>PrizeCategory\<close> and \<open>Manufacturer\<close> of
  \<open>./types\<close>, which the sources import and do not contain. The fields are the ones the
  spec's data model lists and the form's \<open>newPrize\<close> literal writes; the two
  enumerations are the arrays \<open>prizeCategories\<close> and \<open>prizeManufacturers\<close> of the form, in
  their order. Manufacturer, photo and notes are optional. The fields \<open>id\<close> and \<open>notes\<close> are
  called \<open>prize_id\<close> and \<open>prize_notes\<close> here.
\<close>

datatype PrizeCategory = Mascot | Nuigurumi | Figure | OtherCategory

datatype Manufacturer =
  Unspecified | BandaiNamco | Taito | SegaFave | FuRyu | Parade | SK | OtherManufacturer

record prize =
  prize_id :: jsstring
  name :: jsstring
  quantity :: jsnum
  acquisitionDate :: jsstring
  category :: PrizeCategory
  manufacturer :: "Manufacturer option"
  photo :: "jsstring option"
  prize_notes :: "jsstring option"

section \<open>The collection's updaters\<close>

text \<open>\<open>Array.prototype.findIndex\<close>: the first index whose element passes, or \<open>-1\<close>.\<close>

fun findIndexFrom :: "int \<Rightarrow> ('a \<Rightarrow> bool) \<Rightarrow> 'a list \<Rightarrow> int" where
  "findIndexFrom k P [] = -1"
| "findIndexFrom k P (x # xs) = (if P x then k else findIndexFrom (k + 1) P xs)"

definition findIndex :: "('a \<Rightarrow> bool) \<Rightarrow> 'a list \<Rightarrow> int" where
  "findIndex P xs = findIndexFrom 0 P xs"

text \<open>
  The function that \<open>handleSavePrize\<close> hands to \<open>setPrizes\<close>. The index it writes at
  is one that \<open>findIndex\<close> found, so the write is inside the copy.
\<close>

definition savePrizeUpdater :: "prize \<Rightarrow> prize list \<Rightarrow> prize list" where
  "savePrizeUpdater prize prevPrizes =
     (let existingIndex = findIndex (\<lambda>p. prize_id p = prize_id prize) prevPrizes
      in if existingIndex > -1 then prevPrizes[nat existingIndex := prize]
         else prevPrizes @ [prize])"

definition deletePrizeUpdater :: "jsstring \<Rightarrow> prize list \<Rightarrow> prize list" where
  "deletePrizeUpdater prizeId prevPrizes = filter (\<lambda>p. prize_id p \<noteq> prizeId) prevPrizes"

definition quantityChangeUpdater :: "jsstring \<Rightarrow> jsnum \<Rightarrow> prize list \<Rightarrow> prize list" where
  "quantityChangeUpdater prizeId newQuantity prevPrizes =
     map (\<lambda>p. if prize_id p = prizeId then p\<lparr>quantity := newQuantity\<rparr> else p) prevPrizes"

section \<open>The application state, its timers and the store\<close>

datatype SaveStatus = idle | saving | saved

text \<open>
  The two functions the component hands to \<open>window.setTimeout\<close>. The delayed save
  closes over \<open>mySeq\<close> and over the \<open>prizes\<close> of the render that scheduled it.
\<close>

datatype callback = SaveCallback nat "prize list" | StatusCallback

text \<open>
  The state of the mounted component and of the browser around it: the React state
  variables and refs of \<open>App\<close>; whether the last run of the persistence effect returned
  its cleanup; the clock, the pending timers (handle, due time, callback) and the next
  timer handle; the text stored under \<open>STORAGE_KEY\<close>; and the texts handed to
  \<open>localStorage.setItem\<close> so far, oldest first.
\<close>

record app =
  prizes :: "prize list"
  isModalOpen :: bool
  prizeToEdit :: "prize option"
  saveStatus :: SaveStatus
  hydrated :: bool
  saveTimeoutRef :: "nat option"
  statusTimeoutRef :: "nat option"
  saveSeqRef :: nat
  cleanupPending :: bool
  clock :: nat
  timers :: "(nat \<times> nat \<times> callback) list"
  nextTimerId :: nat
  localStorage :: "jsstring option"
  setItemLog :: "jsstring list"

text \<open>
  What the platform decides: the JSON text of one record, whether \<open>setItem\<close> accepts a
  text at a given time (it throws otherwise: quota exceeded, storage unavailable),
  whether \<open>getItem\<close> throws, the result of \<open>JSON.parse\<close> (\<open>None\<close> when it throws), and
  the reading of a decoded value as a \<open>Prize\<close> that the cast \<open>as Prize[]\<close> asserts.
\<close>

record storeops =
  encodePrize :: "prize \<Rightarrow> jsstring"
  setItemAccepts :: "nat \<Rightarrow> jsstring \<Rightarrow> bool"
  getItemThrows :: bool
  jsonParse :: "jsstring \<Rightarrow> jsval option"
  asPrize :: "jsval \<Rightarrow> prize"

fun joinWith :: "'a list \<Rightarrow> 'a list list \<Rightarrow> 'a list" where
  "joinWith sep [] = []"
| "joinWith sep [x] = x"
| "joinWith sep (x # y # ys) = x @ sep @ joinWith sep (y # ys)"

text \<open>\<open>JSON.stringify\<close> of an array: the elements' texts between brackets, with commas.\<close>

definition JSON_stringify :: "('a \<Rightarrow> jsstring) \<Rightarrow> 'a list \<Rightarrow> jsstring" where
  "JSON_stringify enc xs = ascii ''['' @ joinWith (ascii '','') (map enc xs) @ ascii '']''"

text \<open>The initial state of \<open>App\<close>, over a store that holds \<open>store\<close>.\<close>

definition init :: "jsstring option \<Rightarrow> app" where
  "init store =
     \<lparr> prizes = [], isModalOpen = False, prizeToEdit = None, saveStatus = idle,
       hydrated = False, saveTimeoutRef = None, statusTimeoutRef = None, saveSeqRef = 0,
       cleanupPending = False, clock = 0, timers = [], nextTimerId = 1,
       localStorage = store, setItemLog = [] \<rparr>"

text \<open>\<open>window.setTimeout\<close> returns the handle of the timer it registers.\<close>

definition setTimeout :: "callback \<Rightarrow> nat \<Rightarrow> app \<Rightarrow> nat \<times> app" where
  "setTimeout cb delay s =
     (nextTimerId s,
      s\<lparr>timers := timers s @ [(nextTimerId s, clock s + delay, cb)],
        nextTimerId := nextTimerId s + 1\<rparr>)"

definition clearTimeout :: "nat \<Rightarrow> app \<Rightarrow> app" where
  "clearTimeout h s = s\<lparr>timers := filter (\<lambda>(i, d, c). i \<noteq> h) (timers s)\<rparr>"

text \<open>\<open>if (ref.current) window.clearTimeout(ref.current)\<close>: a handle of 0 is falsy.\<close>

definition clearIfSet :: "nat option \<Rightarrow> app \<Rightarrow> app" where
  "clearIfSet r s = (case r of None \<Rightarrow> s | Some h \<Rightarrow> if h \<noteq> 0 then clearTimeout h s else s)"

text \<open>
  \<open>saveSeqRef.current += 1\<close> on a JavaScript number: exact below \<open>2 ^ 53\<close>, and
  without effect from there on.
\<close>

definition jsIncrement :: "nat \<Rightarrow> nat" where
  "jsIncrement n = (if n < 2 ^ 53 then n + 1 else n)"

text \<open>The body of a timer's callback, run when the timer fires.\<close>

fun runCallback :: "storeops \<Rightarrow> callback \<Rightarrow> app \<Rightarrow> app" where
  "runCallback P (SaveCallback mySeq ps) s =
     (if mySeq \<noteq> saveSeqRef s then s
      else
        let encoded = JSON_stringify (encodePrize P) ps;
            s1 = s\<lparr>setItemLog := setItemLog s @ [encoded]\<rparr>
        in if setItemAccepts P (clock s) encoded
           then (case setTimeout StatusCallback 3000
                        (s1\<lparr>localStorage := Some encoded, saveStatus := saved\<rparr>) of
                   (h, s2) \<Rightarrow> s2\<lparr>statusTimeoutRef := Some h\<rparr>)
           else s1\<lparr>saveStatus := idle\<rparr>)"
| "runCallback P StatusCallback s = s\<lparr>saveStatus := idle\<rparr>"

text \<open>The cleanup that the persistence effect returns.\<close>

definition effectCleanup :: "app \<Rightarrow> app" where
  "effectCleanup s = clearIfSet (statusTimeoutRef s) (clearIfSet (saveTimeoutRef s) s)"

text \<open>
  One run of the persistence effect after a render in which \<open>prizes\<close> or \<open>hydrated\<close>
  changed: first the cleanup of the previous run, if that run returned one, then the
  body.
\<close>

definition persistEffect :: "storeops \<Rightarrow> app \<Rightarrow> app" where
  "persistEffect P s =
     (let s0 = (if cleanupPending s then effectCleanup s else s)
      in if \<not> hydrated s0 then s0\<lparr>cleanupPending := False\<rparr>
         else
           let s1 = s0\<lparr>saveSeqRef := jsIncrement (saveSeqRef s0)\<rparr>;
               mySeq = saveSeqRef s1;
               s2 = s1\<lparr>saveStatus := saving\<rparr>;
               s3 = clearIfSet (saveTimeoutRef s2) s2;
               s4 = clearIfSet (statusTimeoutRef s3) s3
           in case setTimeout (SaveCallback mySeq (prizes s4)) 500 s4 of
                (h, s5) \<Rightarrow> s5\<lparr>saveTimeoutRef := Some h, cleanupPending := True\<rparr>)"

text \<open>
  \<open>setPrizes\<close> with an updater. Every updater of the component returns a new array, so
  the render that follows always runs the persistence effect.
\<close>

definition setPrizes :: "storeops \<Rightarrow> (prize list \<Rightarrow> prize list) \<Rightarrow> app \<Rightarrow> app" where
  "setPrizes P f s = persistEffect P (s\<lparr>prizes := f (prizes s)\<rparr>)"

text \<open>
  The load effect, which runs once after the first render, and the render that its
  state updates cause. The persistence effect runs after that render when \<open>setPrizes\<close>
  was called or \<open>hydrated\<close> changed. (Its run after the first render, with
  \<open>hydrated\<close> still false, returns at once and is not a step of its own.)
  \<open>loadStored\<close> is the \<open>try\<close> block: the collection it hands to \<open>setPrizes\<close>, or
  \<open>None\<close> when nothing is stored or a call throws.
\<close>

definition loadStored :: "storeops \<Rightarrow> app \<Rightarrow> prize list option" where
  "loadStored P s =
     (if getItemThrows P then None
      else case localStorage s of
             None \<Rightarrow> None
           | Some storedPrizes \<Rightarrow>
               if storedPrizes = [] then None
               else case jsonParse P storedPrizes of
                      None \<Rightarrow> None
                    | Some parsedPrizes \<Rightarrow>
                        Some (map (asPrize P) (migratePrizes parsedPrizes)))"

definition loadEffect :: "storeops \<Rightarrow> app \<Rightarrow> app" where
  "loadEffect P s =
     (let migrated = loadStored P s;
          s1 = (case migrated of None \<Rightarrow> s | Some m \<Rightarrow> s\<lparr>prizes := m\<rparr>);
          s2 = s1\<lparr>hydrated := True\<rparr>
      in if migrated \<noteq> None \<or> \<not> hydrated s then persistEffect P s2 else s2)"

definition handleOpenAddModal :: "app \<Rightarrow> app" where
  "handleOpenAddModal s = s\<lparr>prizeToEdit := None, isModalOpen := True\<rparr>"

definition handleOpenEditModal :: "prize \<Rightarrow> app \<Rightarrow> app" where
  "handleOpenEditModal prize s = s\<lparr>prizeToEdit := Some prize, isModalOpen := True\<rparr>"

definition handleCloseModal :: "app \<Rightarrow> app" where
  "handleCloseModal s = s\<lparr>isModalOpen := False, prizeToEdit := None\<rparr>"

definition handleSavePrize :: "storeops \<Rightarrow> prize \<Rightarrow> app \<Rightarrow> app" where
  "handleSavePrize P prize s = setPrizes P (savePrizeUpdater prize) s"

text \<open>
  \<open>handleDeletePrize\<close>, with the answer of \<open>window.confirm\<close> as an argument.
  \<open>prizeToEdit?.id === prizeId\<close> is false when no record is open in the form.
\<close>

definition handleDeletePrize :: "storeops \<Rightarrow> bool \<Rightarrow> jsstring \<Rightarrow> app \<Rightarrow> app" where
  "handleDeletePrize P confirmed prizeId s =
     (if confirmed
      then
        let s1 = setPrizes P (deletePrizeUpdater prizeId) s
        in if (case prizeToEdit s of None \<Rightarrow> False | Some e \<Rightarrow> prize_id e = prizeId)
           then handleCloseModal s1 else s1
      else s)"

definition handleQuantityChange :: "storeops \<Rightarrow> jsstring \<Rightarrow> jsnum \<Rightarrow> app \<Rightarrow> app" where
  "handleQuantityChange P prizeId newQuantity s =
     setPrizes P (quantityChangeUpdater prizeId newQuantity) s"

text \<open>
  One unit of time passes: the clock advances and every timer that is due fires, in
  the order of registration.
\<close>

definition tick :: "storeops \<Rightarrow> app \<Rightarrow> app" where
  "tick P s =
     (let s1 = s\<lparr>clock := clock s + 1\<rparr>;
          due = filter (\<lambda>(i, d, c). d \<le> clock s1) (timers s1);
          s2 = s1\<lparr>timers := filter (\<lambda>(i, d, c). \<not> d \<le> clock s1) (timers s1)\<rparr>
      in foldl (\<lambda>st (i, d, c). runCallback P c st) s2 due)"

datatype event =
    Load
  | Tick
  | SavePrize prize
  | DeletePrize jsstring bool
  | QuantityChange jsstring jsnum
  | OpenAddModal
  | OpenEditModal prize
  | CloseModal

fun step :: "storeops \<Rightarrow> event \<Rightarrow> app \<Rightarrow> app" where
  "step P Load s = loadEffect P s"
| "step P Tick s = tick P s"
| "step P (SavePrize prize) s = handleSavePrize P prize s"
| "step P (DeletePrize prizeId confirmed) s = handleDeletePrize P confirmed prizeId s"
| "step P (QuantityChange prizeId newQuantity) s = handleQuantityChange P prizeId newQuantity s"
| "step P OpenAddModal s = handleOpenAddModal s"
| "step P (OpenEditModal prize) s = handleOpenEditModal prize s"
| "step P CloseModal s = handleCloseModal s"

fun exec :: "storeops \<Rightarrow> event list \<Rightarrow> app \<Rightarrow> app" where
  "exec P [] s = s"
| "exec P (e # es) s = exec P es (step P e s)"

text \<open>The events that call \<open>setPrizes\<close>: a declined deletion does not.\<close>

fun isChange :: "event \<Rightarrow> bool" where
  "isChange (SavePrize prize) = True"
| "isChange (DeletePrize prizeId confirmed) = confirmed"
| "isChange (QuantityChange prizeId newQuantity) = True"
| "isChange e = False"

text \<open>A run of changes, each followed by a number of units of time.\<close>

definition burst :: "(event \<times> nat) list \<Rightarrow> event list" where
  "burst cs = concat (map (\<lambda>(e, k). e # replicate k Tick) cs)"

section \<open>Invariants of the reachable states\<close>

text \<open>
  A delayed save is pending and due at \<open>d\<close>: it is the only timer, its handle is the one
  in \<open>saveTimeoutRef\<close>, and its closure holds the current generation and collection.
\<close>

definition saveDue :: "app \<Rightarrow> nat \<Rightarrow> bool" where
  "saveDue s d =
     (timers s \<noteq> [] \<and> tl (timers s) = [] \<and>
      fst (snd (hd (timers s))) = d \<and>
      snd (snd (hd (timers s))) = SaveCallback (saveSeqRef s) (prizes s) \<and>
      saveTimeoutRef s = Some (fst (hd (timers s))) \<and> fst (hd (timers s)) \<noteq> 0 \<and>
      hydrated s \<and> nextTimerId s \<noteq> 0)"

text \<open>No delayed save is pending: no timer at all, or only the status timer.\<close>

definition noSave :: "app \<Rightarrow> bool" where
  "noSave s =
     (nextTimerId s \<noteq> 0 \<and>
      (timers s = [] \<or>
       (tl (timers s) = [] \<and> snd (snd (hd (timers s))) = StatusCallback \<and>
        statusTimeoutRef s = Some (fst (hd (timers s))) \<and> fst (hd (timers s)) \<noteq> 0 \<and>
        clock s < fst (snd (hd (timers s))) \<and> hydrated s)))"

text \<open>
  What every reachable state satisfies: at most one timer is pending, a delayed save
  that is not yet due or the status timer, and before hydration nothing is pending and
  nothing has been written.
\<close>

definition wf :: "app \<Rightarrow> bool" where
  "wf s = ((noSave s \<or> (saveDue s (fst (snd (hd (timers s)))) \<and>
                         clock s < fst (snd (hd (timers s))))) \<and>
           (hydrated s \<or> (timers s = [] \<and> setItemLog s = [])))"

text \<open>The state before the load: nothing scheduled, nothing written.\<close>

definition unloaded :: "jsstring option \<Rightarrow> app \<Rightarrow> bool" where
  "unloaded store s =
     (\<not> hydrated s \<and> timers s = [] \<and> setItemLog s = [] \<and> localStorage s = store)"

text \<open>The collection after an event, as a function of the collection before it.\<close>

fun collectionAfter :: "event \<Rightarrow> prize list \<Rightarrow> prize list" where
  "collectionAfter (SavePrize prize) ps = savePrizeUpdater prize ps"
| "collectionAfter (DeletePrize prizeId confirmed) ps =
     (if confirmed then deletePrizeUpdater prizeId ps else ps)"
| "collectionAfter (QuantityChange prizeId newQuantity) ps =
     quantityChangeUpdater prizeId newQuantity ps"
| "collectionAfter e ps = ps"

section \<open>The filtered and sorted view\<close>

datatype SortOrder = date_desc | name_asc | name_desc

text \<open>The category filter: \<open>Subete\<close> is the sentinel that matches every category.\<close>

datatype CategoryFilter = Subete | Only PrizeCategory

text \<open>
  What the platform decides for text and dates: \<open>String.prototype.toLowerCase\<close>, the
  sign of \<open>localeCompare\<close> under the Japanese locale, and the time value of
  \<open>new Date(text)\<close>, with \<open>None\<close> for \<open>NaN\<close>.
\<close>

record textops =
  toLowerCase :: "jsstring \<Rightarrow> jsstring"
  localeCompare :: "jsstring \<Rightarrow> jsstring \<Rightarrow> int"
  dateGetTime :: "jsstring \<Rightarrow> int option"

text \<open>The code units that \<open>String.prototype.trim\<close> removes: white space and line ends.\<close>

definition isWhiteSpace :: "16 word \<Rightarrow> bool" where
  "isWhiteSpace c =
     (c \<in> set [0x0009, 0x000A, 0x000B, 0x000C, 0x000D, 0x0020, 0x00A0, 0x1680,
               0x2000, 0x2001, 0x2002, 0x2003, 0x2004, 0x2005, 0x2006, 0x2007,
               0x2008, 0x2009, 0x200A, 0x2028, 0x2029, 0x202F, 0x205F, 0x3000, 0xFEFF])"

definition trim :: "jsstring \<Rightarrow> jsstring" where
  "trim s = rev (dropWhile isWhiteSpace (rev (dropWhile isWhiteSpace s)))"

text \<open>\<open>hay.includes(needle)\<close>: the needle starts at some position of the hay.\<close>

fun includesStr :: "'a list \<Rightarrow> 'a list \<Rightarrow> bool" where
  "includesStr [] needle = (needle = [])"
| "includesStr (c # cs) needle = (prefix needle (c # cs) \<or> includesStr cs needle)"

text \<open>
  \<open>Array.prototype.sort\<close> with a comparator, on a copy. The sort is stable, and only
  the sign of the comparator counts; under a comparator that is a consistent ordering
  the result is determined, and insertion from the right computes it.
\<close>

fun insertBy :: "('a \<Rightarrow> 'a \<Rightarrow> int) \<Rightarrow> 'a \<Rightarrow> 'a list \<Rightarrow> 'a list" where
  "insertBy cmp x [] = [x]"
| "insertBy cmp x (y # ys) = (if cmp x y \<le> 0 then x # y # ys else y # insertBy cmp x ys)"

definition Array_sort :: "('a \<Rightarrow> 'a \<Rightarrow> int) \<Rightarrow> 'a list \<Rightarrow> 'a list" where
  "Array_sort cmp xs = foldr (insertBy cmp) xs []"

text \<open>
  The view is computed from the collection (\<open>prizes\<close> in the source), the search
  term, the category filter and the sort order. The repository holds two variants of
  \<open>App\<close>: \<open>filtered\<close> and \<open>filteredAndSortedPrizes\<close> are those of the variant with
  the delayed save, which trims the search term; \<open>filtered_App\<close> and
  \<open>filteredAndSortedPrizes_App\<close> are those of \<open>src/App.tsx\<close>, which matches the search
  term as typed and sorts the array that \<open>filter\<close> returned.
\<close>

text \<open>
  The comparator of the default order, \<open>new Date(b.acquisitionDate).getTime() -
  new Date(a.acquisitionDate).getTime()\<close>. A difference with \<open>NaN\<close> is \<open>NaN\<close>, which the
  sort reads as 0.
\<close>

definition dateCompare :: "textops \<Rightarrow> prize \<Rightarrow> prize \<Rightarrow> int" where
  "dateCompare T a b =
     (case (dateGetTime T (acquisitionDate b), dateGetTime T (acquisitionDate a)) of
        (Some tb, Some ta) \<Rightarrow> tb - ta
      | _ \<Rightarrow> 0)"

definition filtered :: "textops \<Rightarrow> prize list \<Rightarrow> jsstring \<Rightarrow> CategoryFilter \<Rightarrow> prize list" where
  "filtered T collection searchTerm selectedCategory =
     (let term' = toLowerCase T (trim searchTerm)
      in filter (\<lambda>prize.
           let nameMatch = includesStr (toLowerCase T (name prize)) term';
               categoryMatch =
                 (selectedCategory = Subete \<or> Only (category prize) = selectedCategory)
           in nameMatch \<and> categoryMatch) collection)"

definition filteredAndSortedPrizes ::
  "textops \<Rightarrow> prize list \<Rightarrow> jsstring \<Rightarrow> CategoryFilter \<Rightarrow> SortOrder \<Rightarrow> prize list" where
  "filteredAndSortedPrizes T collection searchTerm selectedCategory sortOrder =
     (case sortOrder of
        name_asc \<Rightarrow>
          Array_sort (\<lambda>a b. localeCompare T (name a) (name b))
            (filtered T collection searchTerm selectedCategory)
      | name_desc \<Rightarrow>
          Array_sort (\<lambda>a b. localeCompare T (name b) (name a))
            (filtered T collection searchTerm selectedCategory)
      | date_desc \<Rightarrow>
          Array_sort (dateCompare T) (filtered T collection searchTerm selectedCategory))"

definition filtered_App :: "textops \<Rightarrow> prize list \<Rightarrow> jsstring \<Rightarrow> CategoryFilter \<Rightarrow> prize list" where
  "filtered_App T collection searchTerm selectedCategory =
     filter (\<lambda>prize.
       let nameMatch = includesStr (toLowerCase T (name prize)) (toLowerCase T searchTerm);
           categoryMatch =
             (selectedCategory = Subete \<or> Only (category prize) = selectedCategory)
       in nameMatch \<and> categoryMatch) collection"

definition filteredAndSortedPrizes_App ::
  "textops \<Rightarrow> prize list \<Rightarrow> jsstring \<Rightarrow> CategoryFilter \<Rightarrow> SortOrder \<Rightarrow> prize list" where
  "filteredAndSortedPrizes_App T collection searchTerm selectedCategory sortOrder =
     (case sortOrder of
        name_asc \<Rightarrow>
          Array_sort (\<lambda>a b. localeCompare T (name a) (name b))
            (filtered_App T collection searchTerm selectedCategory)
      | name_desc \<Rightarrow>
          Array_sort (\<lambda>a b. localeCompare T (name b) (name a))
            (filtered_App T collection searchTerm selectedCategory)
      | date_desc \<Rightarrow>
          Array_sort (dateCompare T) (filtered_App T collection searchTerm selectedCategory))"

text \<open>
  Record \<open>a\<close> has a valid acquisition date that is not earlier than the valid one of
  record \<open>b\<close>.
\<close>

definition notEarlier :: "textops \<Rightarrow> prize \<Rightarrow> prize \<Rightarrow> bool" where
  "notEarlier T a b =
     (case (dateGetTime T (acquisitionDate a), dateGetTime T (acquisitionDate b)) of
        (Some ta, Some tb) \<Rightarrow> tb \<le> ta
      | _ \<Rightarrow> False)"

text \<open>
  The filter in the words of the specification, for comparison with \<open>filtered\<close> and
  \<open>filtered_App\<close>: the name contains the search term as typed, both in lower case, and
  the category is the selected one unless the sentinel is selected.
\<close>

definition keeps_as_stated :: "textops \<Rightarrow> jsstring \<Rightarrow> CategoryFilter \<Rightarrow> prize \<Rightarrow> bool" where
  "keeps_as_stated T searchTerm cat p =
     (sublist (toLowerCase T searchTerm) (toLowerCase T (name p)) \<and>
      (cat = Subete \<or> cat = Only (category p)))"

section \<open>The form's edit buffer\<close>

text \<open>
  The state variables of \<open>PrizeFormModal\<close>, each under the prefix \<open>form_\<close>.
\<close>

record formState =
  form_name :: jsstring
  form_quantity :: jsnum
  form_acquisitionDate :: jsstring
  form_photo :: jsstring
  form_notes :: jsstring
  form_category :: PrizeCategory
  form_manufacturer :: Manufacturer
  form_error :: jsstring

text \<open>\<open>s || d\<close> on strings: the empty string is falsy.\<close>

definition strOr :: "jsstring \<Rightarrow> jsstring \<Rightarrow> jsstring" where
  "strOr s d = (if s \<noteq> [] then s else d)"

text \<open>
  \<open>resetForm\<close>, with today's date (\<open>new Date().toISOString().split('T')[0]\<close>) as an
  argument; the component's property \<open>prizeToEdit\<close> is written \<open>prizeToEdit'\<close>.
  \<open>prizeToEdit?.field\<close> is \<open>undefined\<close> when no record is being edited or the
  field is absent, and \<open>||\<close> then takes the default; it also takes the default when
  the field holds a falsy value. The names of the two enumerations are never falsy.
\<close>

definition resetForm :: "jsstring \<Rightarrow> prize option \<Rightarrow> formState" where
  "resetForm today prizeToEdit' =
     \<lparr> form_name = (case prizeToEdit' of None \<Rightarrow> [] | Some p \<Rightarrow> strOr (name p) []),
       form_quantity =
         (case prizeToEdit' of
            None \<Rightarrow> Finite 1
          | Some p \<Rightarrow> if numTruthy (quantity p) then quantity p else Finite 1),
       form_acquisitionDate =
         (case prizeToEdit' of None \<Rightarrow> today | Some p \<Rightarrow> strOr (acquisitionDate p) today),
       form_photo =
         (case prizeToEdit' of
            None \<Rightarrow> []
          | Some p \<Rightarrow> (case photo p of None \<Rightarrow> [] | Some ph \<Rightarrow> strOr ph [])),
       form_notes =
         (case prizeToEdit' of
            None \<Rightarrow> []
          | Some p \<Rightarrow> (case prize_notes p of None \<Rightarrow> [] | Some n \<Rightarrow> strOr n [])),
       form_category = (case prizeToEdit' of None \<Rightarrow> OtherCategory | Some p \<Rightarrow> category p),
       form_manufacturer =
         (case prizeToEdit' of
            None \<Rightarrow> Unspecified
          | Some p \<Rightarrow> (case manufacturer p of None \<Rightarrow> Unspecified | Some m \<Rightarrow> m)),
       form_error = [] \<rparr>"

section \<open>Sample values\<close>

text \<open>
  A record and a platform for the closed instances below: the platform encodes a record
  by its identifier alone, accepts every write, and parses nothing.
\<close>

definition bear :: prize where
  "bear = \<lparr> prize_id = ascii ''a'', name = ascii ''Bear'', quantity = Finite 0,
            acquisitionDate = ascii ''2024-01-01'', category = Nuigurumi,
            manufacturer = None, photo = None, prize_notes = None \<rparr>"

definition sampleOps :: storeops where
  "sampleOps = \<lparr> encodePrize = (\<lambda>p. prize_id p), setItemAccepts = (\<lambda>t x. True),
                 getItemThrows = False, jsonParse = (\<lambda>x. None), asPrize = (\<lambda>v. bear) \<rparr>"


definition rabbit :: prize where
  "rabbit = \<lparr> prize_id = ascii ''b'', name = ascii ''Rabbit'', quantity = Finite 2,
              acquisitionDate = ascii ''2024-06-01'', category = Mascot,
              manufacturer = Some Taito, photo = None, prize_notes = None \<rparr>"

definition robot :: prize where
  "robot = \<lparr> prize_id = ascii ''c'', name = ascii ''Robot'', quantity = Finite 1,
             acquisitionDate = ascii ''2023-12-01'', category = Figure,
             manufacturer = None, photo = None, prize_notes = None \<rparr>"

text \<open>
  A text platform for the closed instances: lower case for the ASCII letters, comparison
  by code units, and the time value of a date in the form \<open>YYYY-MM-DD\<close>, which is the
  midnight that begins the day in UTC, in milliseconds since the epoch.
\<close>

definition asciiLower :: "jsstring \<Rightarrow> jsstring" where
  "asciiLower s = map (\<lambda>c. if 0x41 \<le> c \<and> c \<le> 0x5A then c + 0x20 else c) s"

fun compareUnits :: "jsstring \<Rightarrow> jsstring \<Rightarrow> int" where
  "compareUnits [] [] = 0"
| "compareUnits [] (y # ys) = -1"
| "compareUnits (x # xs) [] = 1"
| "compareUnits (x # xs) (y # ys) =
     (if x < y then -1 else if y < x then 1 else compareUnits xs ys)"

fun digitsValue :: "nat \<Rightarrow> jsstring \<Rightarrow> nat option" where
  "digitsValue acc [] = Some acc"
| "digitsValue acc (c # cs) =
     (if 0x30 \<le> c \<and> c \<le> 0x39 then digitsValue (10 * acc + (unat c - 48)) cs else None)"

definition daysInMonth :: "nat \<Rightarrow> nat \<Rightarrow> nat" where
  "daysInMonth y m =
     (if m = 2 then (if y mod 4 = 0 \<and> (y mod 100 \<noteq> 0 \<or> y mod 400 = 0) then 29 else 28)
      else if m = 4 \<or> m = 6 \<or> m = 9 \<or> m = 11 then 30 else 31)"

text \<open>Days from 1970-01-01 to the given day of the proleptic Gregorian calendar.\<close>

definition daysFromCivil :: "int \<Rightarrow> int \<Rightarrow> int \<Rightarrow> int" where
  "daysFromCivil y m d =
     (let y1 = (if m \<le> 2 then y - 1 else y);
          era = y1 div 400;
          yoe = y1 - era * 400;
          doy = (153 * (if m > 2 then m - 3 else m + 9) + 2) div 5 + d - 1;
          doe = yoe * 365 + yoe div 4 - yoe div 100 + doy
      in era * 146097 + doe - 719468)"

definition isoDateTime :: "jsstring \<Rightarrow> int option" where
  "isoDateTime s =
     (if length s = 10 \<and> s ! 4 = 0x2D \<and> s ! 7 = 0x2D
      then case (digitsValue 0 (take 4 s), digitsValue 0 (take 2 (drop 5 s)),
                 digitsValue 0 (drop 8 s)) of
             (Some y, Some m, Some d) \<Rightarrow>
               if 1 \<le> m \<and> m \<le> 12 \<and> 1 \<le> d \<and> d \<le> daysInMonth y m
               then Some (daysFromCivil (int y) (int m) (int d) * 86400000)
               else None
           | _ \<Rightarrow> None
      else None)"

definition sampleText :: textops where
  "sampleText = \<lparr> toLowerCase = asciiLower, localeCompare = compareUnits,
                  dateGetTime = isoDateTime \<rparr>"

section \<open>Properties of the migration\<close>

lemma category_quantity_distinct: "categoryKey \<noteq> quantityKey"
  by (simp add: categoryKey_def quantityKey_def ascii_def)

lemma migratePrizes_array: "migratePrizes (JArr xs) = map migrateOne (filter truthy xs)"
  by (simp add: migratePrizes_def)

lemma migratePrizes_not_array: "\<not> isArray v \<Longrightarrow> migratePrizes v = []"
  by (simp add: migratePrizes_def)

lemma getProp_migrateOne_category:
  "getProp (migrateOne p) categoryKey =
     (if truthy (getProp p categoryKey) then getProp p categoryKey else JStr sonota)"
  using category_quantity_distinct
  by (simp add: migrateOne_def getProp_def ownProp_def update_conv')

lemma getProp_migrateOne_quantity:
  "getProp (migrateOne p) quantityKey =
     (if nullish (getProp p quantityKey) then JNum (Finite 1) else getProp p quantityKey)"
  by (simp add: migrateOne_def getProp_def ownProp_def update_conv')

lemma ownProp_migrateOne_other:
  "k \<noteq> categoryKey \<Longrightarrow> k \<noteq> quantityKey \<Longrightarrow> ownProp (migrateOne p) k = ownProp p k"
  by (simp add: migrateOne_def ownProp_def update_conv')

lemma truthy_migrateOne: "truthy (migrateOne p)"
  by (simp add: migrateOne_def)

lemma truthy_category_migrateOne: "truthy (getProp (migrateOne p) categoryKey)"
  by (simp add: getProp_migrateOne_category sonota_def)

lemma not_nullish_quantity_migrateOne: "\<not> nullish (getProp (migrateOne p) quantityKey)"
  by (simp add: getProp_migrateOne_quantity)

lemma migrateOne_idem: "migrateOne (migrateOne p) = migrateOne p"
proof -
  obtain al where al: "migrateOne p = JObj al"
    by (simp add: migrateOne_def)
  have t: "truthy (getProp (JObj al) categoryKey)"
    using truthy_category_migrateOne [of p] unfolding al .
  have n: "\<not> nullish (getProp (JObj al) quantityKey)"
    using not_nullish_quantity_migrateOne [of p] unfolding al .
  have "\<exists>v. map_of al categoryKey = Some v"
    using al category_quantity_distinct by (auto simp: migrateOne_def update_conv')
  then have c: "map_of al categoryKey = Some (getProp (JObj al) categoryKey)"
    by (auto simp: getProp_def ownProp_def)
  have "\<exists>v. map_of al quantityKey = Some v"
    using al by (auto simp: migrateOne_def update_conv')
  then have q: "map_of al quantityKey = Some (getProp (JObj al) quantityKey)"
    by (auto simp: getProp_def ownProp_def)
  have "migrateOne (JObj al) =
          JObj (AList.update quantityKey (getProp (JObj al) quantityKey)
                 (AList.update categoryKey (getProp (JObj al) categoryKey) al))"
    using t n by (simp add: migrateOne_def)
  also have "AList.update categoryKey (getProp (JObj al) categoryKey) al = al"
    using c by (rule update_triv)
  also have "AList.update quantityKey (getProp (JObj al) quantityKey) al = al"
    using q by (rule update_triv)
  finally show ?thesis
    by (simp only: al)
qed

lemma filter_truthy_migrated: "filter truthy (map migrateOne xs) = map migrateOne xs"
  by (induction xs) (simp_all add: truthy_migrateOne)

text \<open>
  Claim C3, as amended. An input that is not an array gives the empty sequence. Of an
  array exactly the truthy elements are kept, in order (so \<open>null\<close> and \<open>undefined\<close>
  are dropped, and so are \<open>false\<close>, \<open>0\<close>, \<open>NaN\<close> and the empty string). Each kept
  element becomes an object whose category is the element's own when that is truthy
  and the fallback otherwise, whose quantity is the element's own unless that is
  \<open>null\<close> or \<open>undefined\<close>, when it is 1; a quantity of 0 stays 0; every other own
  property is carried over.
\<close>

theorem migratePrizes_normalises:
  "(\<not> isArray v \<longrightarrow> migratePrizes v = []) \<and>
   length (migratePrizes (JArr xs)) = length (filter truthy xs) \<and>
   (\<forall>i < length (filter truthy xs).
      (\<exists>kvs. migratePrizes (JArr xs) ! i = JObj kvs) \<and>
      getProp (migratePrizes (JArr xs) ! i) categoryKey =
        (if truthy (getProp (filter truthy xs ! i) categoryKey)
         then getProp (filter truthy xs ! i) categoryKey else JStr sonota) \<and>
      getProp (migratePrizes (JArr xs) ! i) quantityKey =
        (if getProp (filter truthy xs ! i) quantityKey = JNull \<or>
            getProp (filter truthy xs ! i) quantityKey = JUndefined
         then JNum (Finite 1) else getProp (filter truthy xs ! i) quantityKey) \<and>
      (getProp (filter truthy xs ! i) quantityKey = JNum (Finite 0) \<longrightarrow>
         getProp (migratePrizes (JArr xs) ! i) quantityKey = JNum (Finite 0)) \<and>
      (\<forall>k. k \<noteq> categoryKey \<and> k \<noteq> quantityKey \<longrightarrow>
         ownProp (migratePrizes (JArr xs) ! i) k = ownProp (filter truthy xs ! i) k))"
proof -
  have nullish_eq: "nullish w = (w = JNull \<or> w = JUndefined)" for w
    by (cases w) simp_all
  have obj: "\<exists>kvs. migrateOne p = JObj kvs" for p
    by (simp add: migrateOne_def)
  show ?thesis
    by (simp add: migratePrizes_array migratePrizes_not_array getProp_migrateOne_category
        getProp_migrateOne_quantity ownProp_migrateOne_other nullish_eq obj)
qed

text \<open>
  Claim C10. Migrating the array that a migration returned gives that array back:
  migrated records are fixed points, and for an input that is not an array both sides
  are empty.
\<close>

theorem migratePrizes_idempotent:
  "migratePrizes (JArr (migratePrizes v)) = migratePrizes v"
proof (cases v)
  case (JArr xs)
  then show ?thesis
    by (simp add: migratePrizes_array filter_truthy_migrated migrateOne_idem)
qed (simp_all add: migratePrizes_def)

theorem migratePrizes_normalises_witness:
  "\<not> isArray JNull \<and> migratePrizes JNull = [] \<and>
   length (migratePrizes
      (JArr [JNull, JObj [(ascii ''name'', JStr (ascii ''bear'')),
                          (ascii ''quantity'', JNum (Finite 0))]])) = 1 \<and>
   getProp (migratePrizes
      (JArr [JNull, JObj [(ascii ''name'', JStr (ascii ''bear'')),
                          (ascii ''quantity'', JNum (Finite 0))]]) ! 0) quantityKey
     = JNum (Finite 0) \<and>
   getProp (migratePrizes
      (JArr [JNull, JObj [(ascii ''name'', JStr (ascii ''bear'')),
                          (ascii ''quantity'', JNum (Finite 0))]]) ! 0) categoryKey
     = JStr sonota"
proof -
  let ?p = "JObj [(ascii ''name'', JStr (ascii ''bear'')),
                  (ascii ''quantity'', JNum (Finite 0))]"
  let ?xs = "[JNull, ?p]"
  note T = migratePrizes_normalises [of JNull ?xs]
  have f: "filter truthy ?xs = [?p]"
    by simp
  have q: "getProp ?p quantityKey = JNum (Finite 0)"
    by (simp add: getProp_def ownProp_def quantityKey_def ascii_def)
  have c: "getProp ?p categoryKey = JUndefined"
    by (simp add: getProp_def ownProp_def categoryKey_def ascii_def)
  from T have a: "migratePrizes JNull = []"
    by simp
  from T have l: "length (migratePrizes (JArr ?xs)) = 1"
    by (simp only: f) simp
  from T have
    "\<forall>i < length (filter truthy ?xs).
       getProp (migratePrizes (JArr ?xs) ! i) categoryKey =
         (if truthy (getProp (filter truthy ?xs ! i) categoryKey)
          then getProp (filter truthy ?xs ! i) categoryKey else JStr sonota) \<and>
       (getProp (filter truthy ?xs ! i) quantityKey = JNum (Finite 0) \<longrightarrow>
          getProp (migratePrizes (JArr ?xs) ! i) quantityKey = JNum (Finite 0))"
    by blast
  then have
    "getProp (migratePrizes (JArr ?xs) ! 0) categoryKey =
         (if truthy (getProp (filter truthy ?xs ! 0) categoryKey)
          then getProp (filter truthy ?xs ! 0) categoryKey else JStr sonota) \<and>
       (getProp (filter truthy ?xs ! 0) quantityKey = JNum (Finite 0) \<longrightarrow>
          getProp (migratePrizes (JArr ?xs) ! 0) quantityKey = JNum (Finite 0))"
    by (simp only: f) simp
  then have
    "getProp (migratePrizes (JArr ?xs) ! 0) categoryKey = JStr sonota \<and>
     getProp (migratePrizes (JArr ?xs) ! 0) quantityKey = JNum (Finite 0)"
    by (simp only: f nth_Cons_0 q c) simp
  with a l show ?thesis
    by simp
qed

text \<open>
  The claim as first stated, that every element other than \<open>null\<close> and \<open>undefined\<close>
  is kept, fails: \<open>false\<close>, \<open>0\<close> and the empty string are neither, and all three are
  dropped.
\<close>

theorem migratePrizes_drops_falsy:
  "filter (\<lambda>x. x \<noteq> JNull \<and> x \<noteq> JUndefined) [JBool False, JNum (Finite 0), JStr []]
     = [JBool False, JNum (Finite 0), JStr []] \<and>
   migratePrizes (JArr [JBool False, JNum (Finite 0), JStr []]) = []"
  by (simp add: migratePrizes_def)

section \<open>Properties of the persistence effect\<close>

lemma persistEffect_unhydrated:
  assumes "\<not> hydrated s" "timers s = []"
  shows "persistEffect P s = s\<lparr>cleanupPending := False\<rparr>"
  using assms
  by (simp add: persistEffect_def effectCleanup_def clearIfSet_def
        clearTimeout_def Let_def split: option.splits)

lemma wf_timers_cases:
  assumes "wf s"
  obtains (none) "timers s = []"
  | (save) i d where "timers s = [(i, d, SaveCallback (saveSeqRef s) (prizes s))]"
      "saveTimeoutRef s = Some i" "i \<noteq> 0" "clock s < d" "hydrated s"
  | (status) i d where "timers s = [(i, d, StatusCallback)]"
      "statusTimeoutRef s = Some i" "i \<noteq> 0" "clock s < d" "hydrated s"
proof (cases "timers s")
  case Nil
  then show ?thesis using none by simp
next
  case (Cons a list)
  obtain i d c where a: "a = (i, d, c)" by (cases a)
  from assms Cons a have "list = []"
    by (auto simp: wf_def noSave_def saveDue_def)
  with assms Cons a show ?thesis
    using save [of i d] status [of i d]
    by (auto simp: wf_def noSave_def saveDue_def)
qed

lemma tick_none:
  assumes "timers s = []"
  shows "tick P s = s\<lparr>clock := clock s + 1\<rparr>"
  using assms by (cases s) (simp add: tick_def Let_def)

lemma tick_not_due:
  assumes "timers s = [(i, d, c)]" "clock s + 1 < d"
  shows "tick P s = s\<lparr>clock := clock s + 1\<rparr>"
  using assms by (cases s) (simp add: tick_def Let_def)

lemma tick_status_due:
  assumes "timers s = [(i, d, StatusCallback)]" "d \<le> clock s + 1"
  shows "tick P s = s\<lparr>clock := clock s + 1, timers := [], saveStatus := idle\<rparr>"
  using assms by (cases s) (simp add: tick_def Let_def)

lemma tick_save_due:
  assumes "timers s = [(i, d, SaveCallback (saveSeqRef s) ps)]" "d \<le> clock s + 1"
  shows "tick P s =
     (if setItemAccepts P (clock s + 1) (JSON_stringify (encodePrize P) ps)
      then s\<lparr>clock := clock s + 1,
             timers := [(nextTimerId s, clock s + 1 + 3000, StatusCallback)],
             nextTimerId := nextTimerId s + 1,
             setItemLog := setItemLog s @ [JSON_stringify (encodePrize P) ps],
             localStorage := Some (JSON_stringify (encodePrize P) ps),
             saveStatus := saved,
             statusTimeoutRef := Some (nextTimerId s)\<rparr>
      else s\<lparr>clock := clock s + 1, timers := [],
             setItemLog := setItemLog s @ [JSON_stringify (encodePrize P) ps],
             saveStatus := idle\<rparr>)"
  using assms by (cases s) (simp add: tick_def Let_def setTimeout_def)

lemma wf_tick:
  assumes "wf s"
  shows "wf (tick P s)"
  using assms
proof (cases rule: wf_timers_cases)
  case none
  with assms show ?thesis
    by (auto simp: tick_none wf_def noSave_def saveDue_def)
next
  case (save i d)
  show ?thesis
  proof (cases "clock s + 1 < d")
    case True
    with save assms show ?thesis
      by (auto simp: tick_not_due [OF save(1)] wf_def noSave_def saveDue_def)
  next
    case False
    then have "d \<le> clock s + 1" by simp
    with save assms show ?thesis
      by (auto simp: tick_save_due [OF save(1)] wf_def noSave_def saveDue_def)
  qed
next
  case (status i d)
  show ?thesis
  proof (cases "clock s + 1 < d")
    case True
    with status assms show ?thesis
      by (auto simp: tick_not_due [OF status(1)] wf_def noSave_def saveDue_def)
  next
    case False
    then have "d \<le> clock s + 1" by simp
    with status assms show ?thesis
      by (auto simp: tick_status_due [OF status(1)] wf_def noSave_def saveDue_def)
  qed
qed

lemma clearIfSet_fields:
  "prizes (clearIfSet r s) = prizes s"
  "hydrated (clearIfSet r s) = hydrated s"
  "isModalOpen (clearIfSet r s) = isModalOpen s"
  "prizeToEdit (clearIfSet r s) = prizeToEdit s"
  "cleanupPending (clearIfSet r s) = cleanupPending s"
  by (simp_all add: clearIfSet_def clearTimeout_def split: option.splits)

lemma persistEffect_fields:
  "prizes (persistEffect P s) = prizes s"
  "hydrated (persistEffect P s) = hydrated s"
  "isModalOpen (persistEffect P s) = isModalOpen s"
  "prizeToEdit (persistEffect P s) = prizeToEdit s"
  by (simp_all add: persistEffect_def effectCleanup_def clearIfSet_fields setTimeout_def Let_def)

lemma runCallback_fields:
  "prizes (runCallback P c s) = prizes s"
  "hydrated (runCallback P c s) = hydrated s"
  "isModalOpen (runCallback P c s) = isModalOpen s"
  "prizeToEdit (runCallback P c s) = prizeToEdit s"
  by (cases c; simp add: setTimeout_def Let_def)+

lemma foldl_runCallback_fields:
  "prizes (foldl (\<lambda>st (i, d, c). runCallback P c st) s ts) = prizes s"
  "hydrated (foldl (\<lambda>st (i, d, c). runCallback P c st) s ts) = hydrated s"
  "isModalOpen (foldl (\<lambda>st (i, d, c). runCallback P c st) s ts) = isModalOpen s"
  "prizeToEdit (foldl (\<lambda>st (i, d, c). runCallback P c st) s ts) = prizeToEdit s"
  by (induction ts arbitrary: s; simp add: runCallback_fields split_def)+

lemma tick_fields:
  "prizes (tick P s) = prizes s"
  "hydrated (tick P s) = hydrated s"
  "isModalOpen (tick P s) = isModalOpen s"
  "prizeToEdit (tick P s) = prizeToEdit s"
  by (simp_all add: tick_def Let_def foldl_runCallback_fields)

lemma hydrated_loadEffect: "hydrated (loadEffect P s)"
  by (simp add: loadEffect_def Let_def persistEffect_fields)

lemma hydrated_step: "hydrated s \<Longrightarrow> hydrated (step P e s)"
  by (cases e)
     (simp_all add: hydrated_loadEffect tick_fields handleSavePrize_def handleDeletePrize_def
        handleQuantityChange_def setPrizes_def persistEffect_fields handleOpenAddModal_def
        handleOpenEditModal_def handleCloseModal_def Let_def)

lemma prizes_step: "e \<noteq> Load \<Longrightarrow> prizes (step P e s) = collectionAfter e (prizes s)"
  by (cases e)
     (simp_all add: tick_fields handleSavePrize_def handleDeletePrize_def
        handleQuantityChange_def setPrizes_def persistEffect_fields handleOpenAddModal_def
        handleOpenEditModal_def handleCloseModal_def Let_def)

lemma persistEffect_after_update:
  assumes "wf s"
  shows "persistEffect P (s\<lparr>prizes := ps, hydrated := True\<rparr>) =
    s\<lparr>prizes := ps, hydrated := True,
      saveSeqRef := jsIncrement (saveSeqRef s), saveStatus := saving,
      timers := [(nextTimerId s, clock s + 500,
                  SaveCallback (jsIncrement (saveSeqRef s)) ps)],
      nextTimerId := nextTimerId s + 1,
      saveTimeoutRef := Some (nextTimerId s), cleanupPending := True\<rparr>"
  using assms
proof (cases rule: wf_timers_cases)
  case none
  then show ?thesis
    by (simp add: persistEffect_def effectCleanup_def clearIfSet_def
        clearTimeout_def setTimeout_def Let_def split: option.splits)
next
  case (save i d)
  then show ?thesis
    by (simp add: persistEffect_def effectCleanup_def clearIfSet_def
        clearTimeout_def setTimeout_def Let_def split: option.splits)
next
  case (status i d)
  then show ?thesis
    by (simp add: persistEffect_def effectCleanup_def clearIfSet_def
        clearTimeout_def setTimeout_def Let_def split: option.splits)
qed

lemma hydrated_update_triv: "hydrated s \<Longrightarrow> s\<lparr>prizes := ps\<rparr> = s\<lparr>prizes := ps, hydrated := True\<rparr>"
  by (cases s) simp

lemma setPrizes_hydrated:
  assumes "wf s" "hydrated s"
  shows "setPrizes P f s =
    s\<lparr>prizes := f (prizes s),
      saveSeqRef := jsIncrement (saveSeqRef s), saveStatus := saving,
      timers := [(nextTimerId s, clock s + 500,
                  SaveCallback (jsIncrement (saveSeqRef s)) (f (prizes s)))],
      nextTimerId := nextTimerId s + 1,
      saveTimeoutRef := Some (nextTimerId s), cleanupPending := True\<rparr>"
proof -
  have e: "s\<lparr>prizes := f (prizes s)\<rparr> = s\<lparr>prizes := f (prizes s), hydrated := True\<rparr>"
    using assms(2) by (rule hydrated_update_triv)
  have "setPrizes P f s = persistEffect P (s\<lparr>prizes := f (prizes s), hydrated := True\<rparr>)"
    unfolding setPrizes_def by (rule arg_cong [OF e])
  also have "\<dots> =
    s\<lparr>prizes := f (prizes s), hydrated := True,
      saveSeqRef := jsIncrement (saveSeqRef s), saveStatus := saving,
      timers := [(nextTimerId s, clock s + 500,
                  SaveCallback (jsIncrement (saveSeqRef s)) (f (prizes s)))],
      nextTimerId := nextTimerId s + 1,
      saveTimeoutRef := Some (nextTimerId s), cleanupPending := True\<rparr>"
    using assms(1) by (rule persistEffect_after_update)
  finally show ?thesis
    using assms(2) by (cases s) simp
qed

lemma setPrizes_unhydrated:
  assumes "\<not> hydrated s" "timers s = []"
  shows "setPrizes P f s = s\<lparr>prizes := f (prizes s), cleanupPending := False\<rparr>"
  using assms by (simp add: setPrizes_def persistEffect_unhydrated)

lemma wf_nextTimerId: "wf s \<Longrightarrow> nextTimerId s \<noteq> 0"
  by (auto simp: wf_def noSave_def saveDue_def)

lemma wf_setPrizes:
  assumes "wf s"
  shows "wf (setPrizes P f s)"
proof (cases "hydrated s")
  case True
  show ?thesis
    using wf_nextTimerId [OF assms] True
    by (simp add: setPrizes_hydrated [OF assms True] wf_def noSave_def saveDue_def)
next
  case False
  with assms have t: "timers s = []"
    by (auto simp: wf_def)
  with assms False show ?thesis
    by (auto simp: setPrizes_unhydrated wf_def noSave_def saveDue_def)
qed

lemma wf_after_update:
  assumes "wf s"
  shows "wf (persistEffect P (s\<lparr>prizes := ps, hydrated := True\<rparr>))"
  using wf_nextTimerId [OF assms]
  by (simp add: persistEffect_after_update [OF assms] wf_def noSave_def saveDue_def)

lemma hydrated_update_prizes: "s\<lparr>hydrated := True\<rparr> = s\<lparr>prizes := prizes s, hydrated := True\<rparr>"
    by (cases s) simp

lemma hydrated_update_same: "hydrated s \<Longrightarrow> s\<lparr>hydrated := True\<rparr> = s"
    by (cases s) simp


lemma loadEffect_Some:
  "loadStored P s = Some m \<Longrightarrow>
     loadEffect P s = persistEffect P (s\<lparr>prizes := m, hydrated := True\<rparr>)"
  by (simp add: loadEffect_def Let_def)

lemma loadEffect_None_first:
  assumes "loadStored P s = None" "\<not> hydrated s"
  shows "loadEffect P s = persistEffect P (s\<lparr>prizes := prizes s, hydrated := True\<rparr>)"
proof -
  have "loadEffect P s = persistEffect P (s\<lparr>hydrated := True\<rparr>)"
    using assms by (simp add: loadEffect_def Let_def)
  also have "s\<lparr>hydrated := True\<rparr> = s\<lparr>prizes := prizes s, hydrated := True\<rparr>"
    by (rule hydrated_update_prizes)
  finally show ?thesis .
qed

lemma loadEffect_None_again:
  assumes "loadStored P s = None" "hydrated s"
  shows "loadEffect P s = s"
proof -
  have "loadEffect P s = s\<lparr>hydrated := True\<rparr>"
    using assms by (simp add: loadEffect_def Let_def)
  also have "\<dots> = s"
    using assms(2) by (rule hydrated_update_same)
  finally show ?thesis .
qed

lemma wf_loadEffect:
  assumes "wf s"
  shows "wf (loadEffect P s)"
proof (cases "loadStored P s")
  case None
  show ?thesis
  proof (cases "hydrated s")
    case True
    show ?thesis
      unfolding loadEffect_None_again [OF None True] by (rule assms)
  next
    case False
    show ?thesis
      unfolding loadEffect_None_first [OF None False] by (rule wf_after_update [OF assms])
  qed
next
  case (Some m)
  show ?thesis
    unfolding loadEffect_Some [OF Some] by (rule wf_after_update [OF assms])
qed

lemma wf_modal:
  assumes "wf s"
  shows "wf (s\<lparr>isModalOpen := b, prizeToEdit := e\<rparr>)" "wf (s\<lparr>prizeToEdit := e, isModalOpen := b\<rparr>)"
  using assms by (auto simp: wf_def noSave_def saveDue_def)

lemma wf_step: "wf s \<Longrightarrow> wf (step P e s)"
  by (cases e)
     (simp_all add: wf_loadEffect wf_tick wf_setPrizes wf_modal handleSavePrize_def
        handleDeletePrize_def handleQuantityChange_def handleOpenAddModal_def
        handleOpenEditModal_def handleCloseModal_def Let_def)

lemma wf_exec: "wf s \<Longrightarrow> wf (exec P es s)"
  by (induction es arbitrary: s) (simp_all add: wf_step)

lemma wf_init: "wf (init store)"
  by (simp add: wf_def noSave_def init_def)

lemma exec_append: "exec P (es @ fs) s = exec P fs (exec P es s)"
  by (induction es arbitrary: s) simp_all

lemma saveDue_timers:
  assumes "saveDue s d"
  obtains i where "timers s = [(i, d, SaveCallback (saveSeqRef s) (prizes s))]"
proof -
  from assms obtain a where a: "timers s = [a]"
    by (cases "timers s") (auto simp: saveDue_def)
  obtain i d' c where "a = (i, d', c)" by (cases a)
  with a assms have "timers s = [(i, d, SaveCallback (saveSeqRef s) (prizes s))]"
    by (simp add: saveDue_def)
  then show ?thesis by (rule that)
qed

lemma wf_saveDue: "saveDue s d \<Longrightarrow> clock s < d \<Longrightarrow> wf s"
  by (auto simp: wf_def saveDue_def)

lemma setPrizes_saveDue:
  assumes "wf s" "hydrated s"
  shows "saveDue (setPrizes P f s) (clock s + 500)"
    and "setItemLog (setPrizes P f s) = setItemLog s"
    and "clock (setPrizes P f s) = clock s"
    and "localStorage (setPrizes P f s) = localStorage s"
  using wf_nextTimerId [OF assms(1)] assms(2)
  by (simp_all add: setPrizes_hydrated [OF assms] saveDue_def)

lemma saveDue_modal:
  "saveDue (handleCloseModal s) d = saveDue s d"
  "setItemLog (handleCloseModal s) = setItemLog s"
  "clock (handleCloseModal s) = clock s"
  "localStorage (handleCloseModal s) = localStorage s"
  by (simp_all add: handleCloseModal_def saveDue_def)

lemma change_saveDue:
  assumes "wf s" "hydrated s" "isChange e"
  shows "saveDue (step P e s) (clock s + 500)"
    and "setItemLog (step P e s) = setItemLog s"
    and "clock (step P e s) = clock s"
  using assms(3) setPrizes_saveDue [OF assms(1,2)]
  by (cases e; simp add: handleSavePrize_def handleDeletePrize_def handleQuantityChange_def
        Let_def saveDue_modal)+

lemma saveDue_clock: "saveDue (s\<lparr>clock := t\<rparr>) d = saveDue s d"
  by (simp add: saveDue_def)

lemma ticks_before:
  "saveDue s d \<Longrightarrow> clock s + k < d \<Longrightarrow>
     exec P (replicate k Tick) s = s\<lparr>clock := clock s + k\<rparr>"
proof (induction k arbitrary: s)
  case 0
  show ?case by (cases s) simp
next
  case (Suc k)
  from Suc.prems(1) obtain i where t: "timers s = [(i, d, SaveCallback (saveSeqRef s) (prizes s))]"
    by (rule saveDue_timers)
  from Suc.prems(2) have "clock s + 1 < d" by simp
  with t have tk: "tick P s = s\<lparr>clock := clock s + 1\<rparr>"
    by (rule tick_not_due)
  have "exec P (replicate k Tick) (s\<lparr>clock := clock s + 1\<rparr>) =
          s\<lparr>clock := clock s + 1\<rparr>\<lparr>clock := clock (s\<lparr>clock := clock s + 1\<rparr>) + k\<rparr>"
    using Suc.prems by (intro Suc.IH) (simp_all add: saveDue_clock)
  then show ?case
    by (simp add: tk)
qed

lemma tick_fire:
  assumes "saveDue s d" "d = clock s + 1"
  shows "setItemLog (tick P s) = setItemLog s @ [JSON_stringify (encodePrize P) (prizes s)]"
    and "noSave (tick P s)"
proof -
  from assms(1) obtain i where t: "timers s = [(i, d, SaveCallback (saveSeqRef s) (prizes s))]"
    by (rule saveDue_timers)
  from assms(2) have d: "d \<le> clock s + 1" by simp
  show "setItemLog (tick P s) = setItemLog s @ [JSON_stringify (encodePrize P) (prizes s)]"
    by (simp add: tick_save_due [OF t d])
  show "noSave (tick P s)"
    using assms(1) by (simp add: tick_save_due [OF t d] noSave_def saveDue_def)
qed

lemma tick_noSave:
  assumes "noSave s"
  shows "noSave (tick P s)" and "setItemLog (tick P s) = setItemLog s"
proof -
  show "noSave (tick P s)"
  proof (cases "timers s")
    case Nil
    with assms show ?thesis by (simp add: tick_none noSave_def)
  next
    case (Cons a list)
    obtain i d c where a: "a = (i, d, c)" by (cases a)
    with Cons assms have t: "timers s = [(i, d, StatusCallback)]"
      by (auto simp: noSave_def)
    show ?thesis
    proof (cases "clock s + 1 < d")
      case True
      with t assms show ?thesis by (simp add: tick_not_due [OF t] noSave_def)
    next
      case False
      then have "d \<le> clock s + 1" by simp
      with t assms show ?thesis by (simp add: tick_status_due [OF t] noSave_def)
    qed
  qed
  show "setItemLog (tick P s) = setItemLog s"
  proof (cases "timers s")
    case Nil
    then show ?thesis by (simp add: tick_none)
  next
    case (Cons a list)
    obtain i d c where a: "a = (i, d, c)" by (cases a)
    with Cons assms have t: "timers s = [(i, d, StatusCallback)]"
      by (auto simp: noSave_def)
    show ?thesis
    proof (cases "clock s + 1 < d")
      case True
      with t show ?thesis by (simp add: tick_not_due [OF t])
    next
      case False
      then have "d \<le> clock s + 1" by simp
      with t show ?thesis by (simp add: tick_status_due [OF t])
    qed
  qed
qed

lemma ticks_noSave:
  "noSave s \<Longrightarrow> setItemLog (exec P (replicate k Tick) s) = setItemLog s"
  by (induction k arbitrary: s) (simp_all add: tick_noSave)

lemma prizes_ticks: "prizes (exec P (replicate k Tick) s) = prizes s"
  by (induction k arbitrary: s) (simp_all add: tick_fields)

lemma ticks_after:
  assumes "saveDue s d" "clock s < d" "d \<le> clock s + k"
  shows "setItemLog (exec P (replicate k Tick) s) =
           setItemLog s @ [JSON_stringify (encodePrize P) (prizes s)]"
proof -
  define a where "a = d - clock s - 1"
  define b where "b = k - a - 1"
  from assms(2,3) have k: "k = a + (1 + b)" and ad: "clock s + a < d" and da: "d = clock s + a + 1"
    by (simp_all add: a_def b_def)
  let ?s1 = "s\<lparr>clock := clock s + a\<rparr>"
  have s1: "exec P (replicate a Tick) s = ?s1"
    using assms(1) ad by (rule ticks_before)
  have sd: "saveDue ?s1 d"
    using assms(1) by (simp add: saveDue_clock)
  have d1: "d = clock ?s1 + 1"
    using da by simp
  have "replicate k Tick = replicate a Tick @ Tick # replicate b Tick"
    unfolding k by (simp add: replicate_add replicate_append_same)
  then have "exec P (replicate k Tick) s = exec P (replicate b Tick) (tick P ?s1)"
    by (simp add: exec_append s1)
  then show ?thesis
    using tick_fire [OF sd d1, of P] by (simp add: ticks_noSave)
qed

lemma burst_Cons: "burst ((e, k) # cs) = (e # replicate k Tick) @ burst cs"
  by (simp add: burst_def)

lemma burst_Nil: "burst [] = []"
  by (simp add: burst_def)

lemma burst_append: "burst (cs @ ds) = burst cs @ burst ds"
  by (simp add: burst_def)

lemma isChange_not_Load: "isChange e \<Longrightarrow> e \<noteq> Load"
  by (cases e) simp_all

lemma prizes_burst:
  "\<forall>c\<in>set cs. isChange (fst c) \<Longrightarrow>
     prizes (exec P (burst cs) s) = foldl (\<lambda>ps e. collectionAfter e ps) (prizes s) (map fst cs)"
proof (induction cs arbitrary: s)
  case Nil
  show ?case by (simp add: burst_Nil)
next
  case (Cons c cs)
  obtain e k where c: "c = (e, k)" by (cases c)
  with Cons.prems have "e \<noteq> Load" by (simp add: isChange_not_Load)
  then have "prizes (exec P (replicate k Tick) (step P e s)) = collectionAfter e (prizes s)"
    by (simp add: prizes_ticks prizes_step)
  with Cons show ?case
    by (simp add: c burst_Cons exec_append)
qed

text \<open>While every gap is shorter than the delay, a save stays pending and nothing is written.\<close>

lemma burst_pending:
  "wf s \<Longrightarrow> hydrated s \<Longrightarrow> \<forall>c\<in>set cs. isChange (fst c) \<and> snd c < 500 \<Longrightarrow>
     wf (exec P (burst cs) s) \<and> hydrated (exec P (burst cs) s) \<and>
     setItemLog (exec P (burst cs) s) = setItemLog s"
proof (induction cs arbitrary: s)
  case Nil
  then show ?case by (simp add: burst_Nil)
next
  case (Cons c cs)
  obtain e k where c: "c = (e, k)" by (cases c)
  with Cons.prems have e: "isChange e" and k: "k < 500" by simp_all
  let ?s1 = "step P e s"
  have sd: "saveDue ?s1 (clock s + 500)" and lg: "setItemLog ?s1 = setItemLog s"
    and ck: "clock ?s1 = clock s"
    using change_saveDue [OF Cons.prems(1,2) e] by simp_all
  have bk: "clock ?s1 + k < clock s + 500"
    using k ck by simp
  let ?s2 = "?s1\<lparr>clock := clock ?s1 + k\<rparr>"
  have s2: "exec P (replicate k Tick) ?s1 = ?s2"
    using sd bk by (rule ticks_before)
  have "saveDue ?s2 (clock s + 500)"
    using sd by (simp add: saveDue_clock)
  moreover have "clock ?s2 < clock s + 500"
    using bk by simp
  ultimately have w2: "wf ?s2"
    by (rule wf_saveDue)
  have h2: "hydrated ?s2"
    using sd by (simp add: saveDue_def)
  have l2: "setItemLog ?s2 = setItemLog s"
    using lg by simp
  have "exec P (burst (c # cs)) s = exec P (burst cs) ?s2"
    by (simp add: c burst_Cons exec_append s2)
  with Cons.IH [OF w2 h2] Cons.prems(3) l2 show ?case
    by simp
qed

lemma burst_written:
  assumes "wf s" "hydrated s" "cs \<noteq> []" "\<forall>c\<in>set cs. isChange (fst c)"
    "\<forall>c\<in>set (butlast cs). snd c < 500" "500 \<le> snd (last cs)"
  shows "setItemLog (exec P (burst (butlast cs) @ [fst (last cs)]) s) = setItemLog s"
    and "setItemLog (exec P (burst cs) s) =
           setItemLog s @ [JSON_stringify (encodePrize P) (prizes (exec P (burst cs) s))]"
proof -
  obtain e k where l: "last cs = (e, k)" by (cases "last cs")
  from assms(3) have cs: "cs = butlast cs @ [(e, k)]"
    using l by (metis append_butlast_last_id)
  let ?s0 = "exec P (burst (butlast cs)) s"
  have b: "\<forall>c\<in>set (butlast cs). isChange (fst c) \<and> snd c < 500"
    using assms(4,5) by (auto dest: in_set_butlastD)
  have w0: "wf ?s0" and h0: "hydrated ?s0" and l0: "setItemLog ?s0 = setItemLog s"
    using burst_pending [OF assms(1,2) b, of P] by simp_all
  have e: "isChange e"
    using assms(3,4) l by (metis fst_conv last_in_set)
  have k: "500 \<le> k"
    using assms(6) l by simp
  let ?s1 = "step P e ?s0"
  have sd: "saveDue ?s1 (clock ?s0 + 500)" and lg: "setItemLog ?s1 = setItemLog ?s0"
    and ck: "clock ?s1 = clock ?s0"
    using change_saveDue [OF w0 h0 e] by simp_all
  show "setItemLog (exec P (burst (butlast cs) @ [fst (last cs)]) s) = setItemLog s"
    by (simp add: exec_append l lg l0)
  have ex: "exec P (burst cs) s = exec P (replicate k Tick) ?s1"
    by (subst cs) (simp add: burst_append burst_Cons burst_Nil exec_append)
  have "setItemLog (exec P (replicate k Tick) ?s1) =
          setItemLog ?s1 @ [JSON_stringify (encodePrize P) (prizes ?s1)]"
    using sd by (rule ticks_after) (simp_all add: ck k)
  then show "setItemLog (exec P (burst cs) s) =
           setItemLog s @ [JSON_stringify (encodePrize P) (prizes (exec P (burst cs) s))]"
    by (simp add: ex prizes_ticks lg l0)
qed

text \<open>
  Claim C1. Take any state the component reaches once it is hydrated, and from there a
  run of collection changes, each less than 500 time units after the one before,
  followed by at least 500 quiet units. Up to and including the last change nothing is
  written. When the run is over \<open>setItem\<close> has been called exactly once, with the
  serialization of the collection as the last change left it. And a delayed save that
  fires with a generation number other than the current one leaves the whole state,
  the store included, as it was.
\<close>

theorem debounced_burst_single_write:
  assumes "s = exec P evs (init store)" and "hydrated s"
    and "cs \<noteq> []" and "\<forall>c\<in>set cs. isChange (fst c)"
    and "\<forall>c\<in>set (butlast cs). snd c < 500" and "500 \<le> snd (last cs)"
  shows "setItemLog (exec P (burst (butlast cs) @ [fst (last cs)]) s) = setItemLog s \<and>
         setItemLog (exec P (burst cs) s) =
           setItemLog s @
             [JSON_stringify (encodePrize P)
                (foldl (\<lambda>ps e. collectionAfter e ps) (prizes s) (map fst cs))] \<and>
         (mySeq \<noteq> saveSeqRef t \<longrightarrow> runCallback P (SaveCallback mySeq ps) t = t)"
proof -
  have w: "wf s"
    unfolding assms(1) by (rule wf_exec) (rule wf_init)
  show ?thesis
    using burst_written [OF w assms(2-6), of P] prizes_burst [OF assms(4), of P s]
    by simp
qed

theorem debounced_burst_single_write_witness:
  "hydrated (exec sampleOps [Load] (init None)) \<and>
   setItemLog (exec sampleOps
      (burst [(SavePrize bear, 3), (QuantityChange (ascii ''a'') (Finite 2), 499),
              (DeletePrize (ascii ''b'') True, 500)])
      (exec sampleOps [Load] (init None))) = [ascii ''[a]''] \<and>
   runCallback sampleOps (SaveCallback 5 [bear]) (init None) = init None"
proof -
  let ?s = "exec sampleOps [Load] (init None)"
  let ?cs = "[(SavePrize bear, 3), (QuantityChange (ascii ''a'') (Finite 2), 499),
              (DeletePrize (ascii ''b'') True, 500)]"
  have h: "hydrated ?s"
    by (simp add: hydrated_loadEffect)
  have l: "setItemLog ?s = []"
    by (simp add: loadEffect_def loadStored_def sampleOps_def init_def Let_def
        persistEffect_def setTimeout_def effectCleanup_def clearIfSet_def)
  have p: "prizes ?s = []"
    by (simp add: persistEffect_fields loadEffect_def loadStored_def sampleOps_def init_def Let_def)
  have c: "foldl (\<lambda>ps e. collectionAfter e ps) [] (map fst ?cs) = [bear\<lparr>quantity := Finite 2\<rparr>]"
    by (simp add: savePrizeUpdater_def findIndex_def quantityChangeUpdater_def
        deletePrizeUpdater_def bear_def ascii_def)
  have e: "JSON_stringify (encodePrize sampleOps) [bear\<lparr>quantity := Finite 2\<rparr>] = ascii ''[a]''"
    by (simp add: JSON_stringify_def sampleOps_def bear_def ascii_def)
  have n: "(5::nat) \<noteq> saveSeqRef (init None)"
    by (simp add: init_def)
  from debounced_burst_single_write [of ?s sampleOps "[Load]" None ?cs 5 "init None" "[bear]"] h n
  have "setItemLog (exec sampleOps (burst ?cs) ?s) =
           setItemLog ?s @
             [JSON_stringify (encodePrize sampleOps)
                (foldl (\<lambda>ps e. collectionAfter e ps) (prizes ?s) (map fst ?cs))]"
    and "runCallback sampleOps (SaveCallback 5 [bear]) (init None) = init None"
    by simp_all
  then show ?thesis
    using h by (simp only: l p c e append_Nil simp_thms)
qed

lemma unloaded_step:
  assumes "unloaded store s" "e \<noteq> Load"
  shows "unloaded store (step P e s)"
proof -
  from assms(1) have h: "\<not> hydrated s" and t: "timers s = []"
    by (simp_all add: unloaded_def)
  have sp: "unloaded store (setPrizes P f s)" for f
    using assms(1) by (simp add: setPrizes_unhydrated [OF h t] unloaded_def)
  show ?thesis
    using assms sp
    by (cases e)
       (simp_all add: tick_none [OF t] handleSavePrize_def handleDeletePrize_def
          handleQuantityChange_def handleOpenAddModal_def handleOpenEditModal_def
          handleCloseModal_def Let_def unloaded_def)
qed

lemma unloaded_exec:
  "unloaded store s \<Longrightarrow> Load \<notin> set es \<Longrightarrow> unloaded store (exec P es s)"
  by (induction es arbitrary: s) (auto simp: unloaded_step)

lemma unloaded_init: "unloaded store (init store)"
  by (simp add: unloaded_def init_def)

text \<open>
  Claim C2. As long as the load effect has not run, whatever changes and however much
  time passes, \<open>hydrated\<close> is false, no timer is pending, \<open>setItem\<close> has not been called
  and the store holds what it held. The load effect sets \<open>hydrated\<close> in every state and
  on every platform, so whether \<open>getItem\<close> or \<open>JSON.parse\<close> throws or not. No step
  resets it.
\<close>

theorem no_write_before_hydration:
  "(Load \<notin> set evs \<longrightarrow>
      \<not> hydrated (exec P evs (init store)) \<and>
      timers (exec P evs (init store)) = [] \<and>
      setItemLog (exec P evs (init store)) = [] \<and>
      localStorage (exec P evs (init store)) = store) \<and>
   hydrated (step P Load s) \<and>
   (hydrated s \<longrightarrow> hydrated (step P e s))"
  using unloaded_exec [OF unloaded_init, of evs store P]
  by (simp add: unloaded_def hydrated_loadEffect hydrated_step)

theorem no_write_before_hydration_witness:
  "Load \<notin> set [SavePrize bear, Tick, DeletePrize (ascii ''a'') True] \<and>
   \<not> hydrated (exec sampleOps [SavePrize bear, Tick, DeletePrize (ascii ''a'') True]
                 (init (Some (ascii ''[]'')))) \<and>
   setItemLog (exec sampleOps [SavePrize bear, Tick, DeletePrize (ascii ''a'') True]
                 (init (Some (ascii ''[]'')))) = [] \<and>
   localStorage (exec sampleOps [SavePrize bear, Tick, DeletePrize (ascii ''a'') True]
                 (init (Some (ascii ''[]'')))) = Some (ascii ''[]'') \<and>
   hydrated (step sampleOps Load (init (Some (ascii ''[]'')))) \<and>
   hydrated (step sampleOps Tick (step sampleOps Load (init (Some (ascii ''[]'')))))"
proof -
  let ?evs = "[SavePrize bear, Tick, DeletePrize (ascii ''a'') True]"
  let ?st = "Some (ascii ''[]'')"
  note T = no_write_before_hydration [of ?evs sampleOps ?st "init ?st" Load]
  note U = no_write_before_hydration [of ?evs sampleOps ?st "step sampleOps Load (init ?st)" Tick]
  have n: "Load \<notin> set ?evs" by simp
  from T n have a: "\<not> hydrated (exec sampleOps ?evs (init ?st)) \<and>
      setItemLog (exec sampleOps ?evs (init ?st)) = [] \<and>
      localStorage (exec sampleOps ?evs (init ?st)) = ?st"
    by blast
  from T have b: "hydrated (step sampleOps Load (init ?st))"
    by blast
  from U b have c: "hydrated (step sampleOps Tick (step sampleOps Load (init ?st)))"
    by blast
  from n a b c show ?thesis
    by blast
qed

lemma wf_pending_save:
  assumes "wf s" "(i, d, SaveCallback q qs) \<in> set (timers s)"
  shows "q = saveSeqRef s \<and> qs = prizes s"
  using assms(1)
proof (cases rule: wf_timers_cases)
  case none
  with assms(2) show ?thesis by simp
next
  case (save j e)
  with assms(2) show ?thesis by simp
next
  case (status j e)
  with assms(2) show ?thesis by simp
qed

lemma JSON_stringify_empty: "JSON_stringify enc [] = ascii ''[]''"
  by (simp add: JSON_stringify_def ascii_def)

text \<open>
  Claim C6. A delayed save whose generation number is the current one calls \<open>setItem\<close>
  with the serialization of the collection it holds, whatever that collection is; if
  the store accepts the text, the text is the store's new value. For the empty
  collection the text is \<open>[]\<close>. In every reachable state a pending save holds the
  current generation number and the current collection.
\<close>

theorem matching_generation_writes_collection:
  "setItemLog (runCallback P (SaveCallback (saveSeqRef s) ps) s) =
     setItemLog s @ [JSON_stringify (encodePrize P) ps] \<and>
   (setItemAccepts P (clock s) (JSON_stringify (encodePrize P) ps) \<longrightarrow>
      localStorage (runCallback P (SaveCallback (saveSeqRef s) ps) s) =
        Some (JSON_stringify (encodePrize P) ps)) \<and>
   JSON_stringify (encodePrize P) [] = ascii ''[]'' \<and>
   (r = exec P evs (init store) \<and> (i, d, SaveCallback q qs) \<in> set (timers r) \<longrightarrow>
      q = saveSeqRef r \<and> qs = prizes r)"
proof -
  have "wf (exec P evs (init store))"
    by (rule wf_exec) (rule wf_init)
  then show ?thesis
    by (auto simp: Let_def setTimeout_def JSON_stringify_empty dest: wf_pending_save)
qed

theorem matching_generation_writes_collection_witness:
  "setItemLog (runCallback sampleOps (SaveCallback (saveSeqRef (init (Some (ascii ''[a]'')))) [])
      (init (Some (ascii ''[a]'')))) = [ascii ''[]''] \<and>
   localStorage (runCallback sampleOps (SaveCallback (saveSeqRef (init (Some (ascii ''[a]'')))) [])
      (init (Some (ascii ''[a]'')))) = Some (ascii ''[]'') \<and>
   (1, 500, SaveCallback 1 []) \<in> set (timers (exec sampleOps [Load] (init None))) \<and>
   1 = saveSeqRef (exec sampleOps [Load] (init None)) \<and>
   [] = prizes (exec sampleOps [Load] (init None))"
proof -
  let ?s = "init (Some (ascii ''[a]''))"
  let ?r = "exec sampleOps [Load] (init None)"
  note T = matching_generation_writes_collection
    [of sampleOps ?s "[]" ?r "[Load]" None 1 500 1 "[]"]
  have acc: "setItemAccepts sampleOps (clock ?s) (JSON_stringify (encodePrize sampleOps) [])"
    by (simp add: sampleOps_def)
  have e: "JSON_stringify (encodePrize sampleOps) [] = ascii ''[]''"
    using T by blast
  have l: "setItemLog ?s = []"
    by (simp add: init_def)
  have m: "(1, 500, SaveCallback 1 []) \<in> set (timers ?r)"
    by (simp add: loadEffect_def loadStored_def sampleOps_def init_def Let_def
        persistEffect_def setTimeout_def effectCleanup_def clearIfSet_def jsIncrement_def)
  from T acc have
    "setItemLog (runCallback sampleOps (SaveCallback (saveSeqRef ?s) []) ?s) =
       setItemLog ?s @ [JSON_stringify (encodePrize sampleOps) []]"
    "localStorage (runCallback sampleOps (SaveCallback (saveSeqRef ?s) []) ?s) =
       Some (JSON_stringify (encodePrize sampleOps) [])"
    by blast+
  moreover from T m have "1 = saveSeqRef ?r \<and> [] = prizes ?r"
    by blast
  ultimately show ?thesis
    using m by (simp only: e l append_Nil simp_thms)
qed

section \<open>Properties of the handlers\<close>

lemma findIndexFrom_eq:
  "findIndexFrom k P xs =
     (if \<exists>x\<in>set xs. P x then k + int (length (takeWhile (\<lambda>x. \<not> P x) xs)) else -1)"
  by (induction xs arbitrary: k) auto

lemma findIndex_eq:
  "findIndex P xs =
     (if \<exists>x\<in>set xs. P x then int (length (takeWhile (\<lambda>x. \<not> P x) xs)) else -1)"
  by (simp add: findIndex_def findIndexFrom_eq)

lemma savePrizeUpdater_found:
  assumes "prize_id prize \<in> prize_id ` set ps"
  shows "savePrizeUpdater prize ps =
           ps[length (takeWhile (\<lambda>p. prize_id p \<noteq> prize_id prize) ps) := prize]"
  using assms by (auto simp: savePrizeUpdater_def findIndex_eq Let_def)

lemma savePrizeUpdater_new:
  assumes "prize_id prize \<notin> prize_id ` set ps"
  shows "savePrizeUpdater prize ps = ps @ [prize]"
proof -
  from assms have "\<not> (\<exists>x\<in>set ps. prize_id x = prize_id prize)"
    by (metis image_eqI)
  then show ?thesis
    by (simp add: savePrizeUpdater_def findIndex_eq Let_def)
qed

lemma first_match:
  assumes "\<exists>x\<in>set xs. \<not> Q x"
  shows "length (takeWhile Q xs) < length xs"
    and "\<not> Q (xs ! length (takeWhile Q xs))"
    and "\<forall>j < length (takeWhile Q xs). Q (xs ! j)"
proof -
  show l: "length (takeWhile Q xs) < length xs"
    using assms by (induction xs) auto
  then show "\<not> Q (xs ! length (takeWhile Q xs))"
    by (rule nth_length_takeWhile)
  show "\<forall>j < length (takeWhile Q xs). Q (xs ! j)"
  proof (intro allI impI)
    fix j assume j: "j < length (takeWhile Q xs)"
    then have "takeWhile Q xs ! j \<in> set (takeWhile Q xs)" by simp
    then have "Q (takeWhile Q xs ! j)" by (rule set_takeWhileD [THEN conjunct2])
    with j show "Q (xs ! j)" by (simp add: takeWhile_nth)
  qed
qed

lemma distinct_savePrizeUpdater:
  assumes "distinct (map prize_id ps)"
  shows "distinct (map prize_id (savePrizeUpdater prize ps))"
proof (cases "prize_id prize \<in> prize_id ` set ps")
  case True
  let ?i = "length (takeWhile (\<lambda>p. prize_id p \<noteq> prize_id prize) ps)"
  from True have ex: "\<exists>x\<in>set ps. \<not> prize_id x \<noteq> prize_id prize" by auto
  have "?i < length ps" and "prize_id (ps ! ?i) = prize_id prize"
    using first_match(1,2) [OF ex] by simp_all
  then have "(map prize_id ps)[?i := prize_id prize] = map prize_id ps"
    by (metis list_update_id nth_map)
  then have "map prize_id (ps[?i := prize]) = map prize_id ps"
    by (simp add: map_update)
  with assms True show ?thesis
    by (simp add: savePrizeUpdater_found)
next
  case False
  with assms show ?thesis
    by (simp add: savePrizeUpdater_new)
qed

text \<open>
  Claim C4. When the identifier of the saved record occurs in the collection, the save
  writes the record at the first index that holds this identifier: the length is
  unchanged, the record there has the same identifier as before, and every other index
  keeps its record. When the identifier does not occur, the record is added at the
  end and the records before it are unchanged. Identifiers that were pairwise
  different stay so. The handler sets the collection to exactly this list.
\<close>

theorem save_replaces_in_place_or_appends:
  "(prize_id prize \<in> prize_id ` set ps \<longrightarrow>
      (\<exists>i < length ps.
          prize_id (ps ! i) = prize_id prize \<and>
          (\<forall>j < i. prize_id (ps ! j) \<noteq> prize_id prize) \<and>
          savePrizeUpdater prize ps = ps[i := prize]) \<and>
      length (savePrizeUpdater prize ps) = length ps) \<and>
   (prize_id prize \<notin> prize_id ` set ps \<longrightarrow> savePrizeUpdater prize ps = ps @ [prize]) \<and>
   (distinct (map prize_id ps) \<longrightarrow> distinct (map prize_id (savePrizeUpdater prize ps))) \<and>
   prizes (handleSavePrize P prize s) = savePrizeUpdater prize (prizes s)"
proof -
  have a: "\<exists>i < length ps.
          prize_id (ps ! i) = prize_id prize \<and>
          (\<forall>j < i. prize_id (ps ! j) \<noteq> prize_id prize) \<and>
          savePrizeUpdater prize ps = ps[i := prize]"
    if t: "prize_id prize \<in> prize_id ` set ps"
  proof -
    let ?i = "length (takeWhile (\<lambda>p. prize_id p \<noteq> prize_id prize) ps)"
    from t have ex: "\<exists>x\<in>set ps. \<not> prize_id x \<noteq> prize_id prize" by auto
    have "?i < length ps" "prize_id (ps ! ?i) = prize_id prize"
      "\<forall>j < ?i. prize_id (ps ! j) \<noteq> prize_id prize"
      using first_match [OF ex] by simp_all
    with savePrizeUpdater_found [OF t] show ?thesis
      by blast
  qed
  have b: "length (savePrizeUpdater prize ps) = length ps"
    if t: "prize_id prize \<in> prize_id ` set ps"
    by (simp add: savePrizeUpdater_found [OF t])
  have c: "prizes (handleSavePrize P prize s) = savePrizeUpdater prize (prizes s)"
    by (simp add: handleSavePrize_def setPrizes_def persistEffect_fields)
  show ?thesis
    using a b c savePrizeUpdater_new distinct_savePrizeUpdater by blast
qed

lemma filter_distinct_remove1:
  "distinct (map f xs) \<Longrightarrow> r \<in> set xs \<Longrightarrow> filter (\<lambda>p. f p \<noteq> f r) xs = remove1 r xs"
proof (induction xs)
  case Nil
  then show ?case by simp
next
  case (Cons x xs)
  show ?case
  proof (cases "x = r")
    case True
    with Cons.prems have "f r \<notin> f ` set xs" by simp
    then have "\<forall>p\<in>set xs. f p \<noteq> f r" by (metis image_eqI)
    then have "filter (\<lambda>p. f p \<noteq> f r) xs = xs"
      by (simp add: filter_id_conv)
    with True show ?thesis by simp
  next
    case False
    with Cons.prems have "r \<in> set xs" "f x \<noteq> f r" by auto
    with Cons False show ?thesis by simp
  qed
qed

text \<open>
  Claim C5. A deletion that the user declines leaves the whole state as it was. An
  accepted one keeps the records with another identifier, in their order; when the
  identifiers are pairwise different and a record has the given one, exactly that one
  record is gone. The form is closed when the record open in it has the given
  identifier, and is left alone otherwise.
\<close>

theorem delete_needs_confirmation:
  "handleDeletePrize P False prizeId s = s \<and>
   prizes (handleDeletePrize P True prizeId s) =
     filter (\<lambda>p. prize_id p \<noteq> prizeId) (prizes s) \<and>
   (distinct (map prize_id (prizes s)) \<and> r \<in> set (prizes s) \<and> prize_id r = prizeId \<longrightarrow>
      mset (prizes s) = add_mset r (mset (prizes (handleDeletePrize P True prizeId s))) \<and>
      length (prizes s) = length (prizes (handleDeletePrize P True prizeId s)) + 1) \<and>
   ((\<exists>e. prizeToEdit s = Some e \<and> prize_id e = prizeId) \<longrightarrow>
      \<not> isModalOpen (handleDeletePrize P True prizeId s) \<and>
      prizeToEdit (handleDeletePrize P True prizeId s) = None) \<and>
   (\<not> (\<exists>e. prizeToEdit s = Some e \<and> prize_id e = prizeId) \<longrightarrow>
      isModalOpen (handleDeletePrize P True prizeId s) = isModalOpen s \<and>
      prizeToEdit (handleDeletePrize P True prizeId s) = prizeToEdit s)"
proof -
  have p: "prizes (handleDeletePrize P True prizeId s) =
             filter (\<lambda>p. prize_id p \<noteq> prizeId) (prizes s)"
    by (simp add: handleDeletePrize_def Let_def handleCloseModal_def setPrizes_def
        persistEffect_fields deletePrizeUpdater_def)
  have m: "mset (prizes s) = add_mset r (mset (prizes (handleDeletePrize P True prizeId s))) \<and>
      length (prizes s) = length (prizes (handleDeletePrize P True prizeId s)) + 1"
    if "distinct (map prize_id (prizes s))" "r \<in> set (prizes s)" "prize_id r = prizeId"
  proof -
    have "prizes (handleDeletePrize P True prizeId s) = remove1 r (prizes s)"
      using that filter_distinct_remove1 [of prize_id "prizes s" r] by (simp add: p)
    with that(2) show ?thesis
      by (simp add: length_remove1) (cases "prizes s", simp_all)
  qed
  have c: "\<not> isModalOpen (handleDeletePrize P True prizeId s) \<and>
      prizeToEdit (handleDeletePrize P True prizeId s) = None"
    if "\<exists>e. prizeToEdit s = Some e \<and> prize_id e = prizeId"
    using that by (auto simp: handleDeletePrize_def Let_def handleCloseModal_def)
  have k: "isModalOpen (handleDeletePrize P True prizeId s) = isModalOpen s \<and>
      prizeToEdit (handleDeletePrize P True prizeId s) = prizeToEdit s"
    if "\<not> (\<exists>e. prizeToEdit s = Some e \<and> prize_id e = prizeId)"
    using that
    by (cases "prizeToEdit s")
       (simp_all add: handleDeletePrize_def Let_def setPrizes_def persistEffect_fields)
  have d: "handleDeletePrize P False prizeId s = s"
    by (simp add: handleDeletePrize_def)
  show ?thesis
    using p m c k d by blast
qed

theorem save_replaces_in_place_or_appends_witness:
  "prize_id (bear\<lparr>quantity := Finite 5\<rparr>) \<in> prize_id ` set [rabbit, bear] \<and>
   length (savePrizeUpdater (bear\<lparr>quantity := Finite 5\<rparr>) [rabbit, bear]) = 2 \<and>
   prize_id robot \<notin> prize_id ` set [rabbit, bear] \<and>
   savePrizeUpdater robot [rabbit, bear] = [rabbit, bear, robot] \<and>
   distinct (map prize_id [rabbit, bear]) \<and>
   distinct (map prize_id (savePrizeUpdater robot [rabbit, bear]))"
proof -
  note A = save_replaces_in_place_or_appends
    [of "bear\<lparr>quantity := Finite 5\<rparr>" "[rabbit, bear]" sampleOps "init None"]
  note B = save_replaces_in_place_or_appends [of robot "[rabbit, bear]" sampleOps "init None"]
  have a: "prize_id (bear\<lparr>quantity := Finite 5\<rparr>) \<in> prize_id ` set [rabbit, bear]"
    by (simp add: bear_def rabbit_def)
  have b: "prize_id robot \<notin> prize_id ` set [rabbit, bear]"
    by (simp add: bear_def rabbit_def robot_def ascii_def)
  have d: "distinct (map prize_id [rabbit, bear])"
    by (simp add: bear_def rabbit_def ascii_def)
  from A a have "length (savePrizeUpdater (bear\<lparr>quantity := Finite 5\<rparr>) [rabbit, bear]) =
      length [rabbit, bear]"
    by blast
  moreover from B b have "savePrizeUpdater robot [rabbit, bear] = [rabbit, bear] @ [robot]"
    by blast
  moreover from B d have "distinct (map prize_id (savePrizeUpdater robot [rabbit, bear]))"
    by blast
  ultimately show ?thesis
    using a b d by simp
qed

theorem delete_needs_confirmation_witness:
  "distinct (map prize_id [bear, rabbit]) \<and> bear \<in> set [bear, rabbit] \<and>
   prizeToEdit ((init None)\<lparr>prizes := [bear, rabbit], prizeToEdit := Some bear,
                  isModalOpen := True\<rparr>) = Some bear \<and>
   handleDeletePrize sampleOps False (ascii ''a'')
     ((init None)\<lparr>prizes := [bear, rabbit], prizeToEdit := Some bear, isModalOpen := True\<rparr>)
     = (init None)\<lparr>prizes := [bear, rabbit], prizeToEdit := Some bear, isModalOpen := True\<rparr> \<and>
   prizes (handleDeletePrize sampleOps True (ascii ''a'')
     ((init None)\<lparr>prizes := [bear, rabbit], prizeToEdit := Some bear, isModalOpen := True\<rparr>))
     = [rabbit] \<and>
   \<not> isModalOpen (handleDeletePrize sampleOps True (ascii ''a'')
     ((init None)\<lparr>prizes := [bear, rabbit], prizeToEdit := Some bear, isModalOpen := True\<rparr>)) \<and>
   isModalOpen (handleDeletePrize sampleOps True (ascii ''b'')
     ((init None)\<lparr>prizes := [bear, rabbit], prizeToEdit := Some bear, isModalOpen := True\<rparr>))"
proof -
  let ?s = "(init None)\<lparr>prizes := [bear, rabbit], prizeToEdit := Some bear, isModalOpen := True\<rparr>"
  note A = delete_needs_confirmation [of sampleOps "ascii ''a''" ?s bear]
  note B = delete_needs_confirmation [of sampleOps "ascii ''b''" ?s rabbit]
  have d: "distinct (map prize_id [bear, rabbit])"
    by (simp add: bear_def rabbit_def ascii_def)
  have e: "\<exists>e. prizeToEdit ?s = Some e \<and> prize_id e = ascii ''a''"
    by (simp add: bear_def)
  have n: "\<not> (\<exists>e. prizeToEdit ?s = Some e \<and> prize_id e = ascii ''b'')"
    by (simp add: bear_def ascii_def)
  have f: "filter (\<lambda>p. prize_id p \<noteq> ascii ''a'') (prizes ?s) = [rabbit]"
    by (simp add: bear_def rabbit_def ascii_def)
  from A have "handleDeletePrize sampleOps False (ascii ''a'') ?s = ?s"
    by blast
  moreover from A have "prizes (handleDeletePrize sampleOps True (ascii ''a'') ?s) = [rabbit]"
    unfolding f by blast
  moreover from A e have "\<not> isModalOpen (handleDeletePrize sampleOps True (ascii ''a'') ?s)"
    by blast
  moreover from B n have "isModalOpen (handleDeletePrize sampleOps True (ascii ''b'') ?s)"
    by simp
  ultimately show ?thesis
    using d by simp
qed

section \<open>Properties of the view and of the form\<close>

lemma includesStr_sublist: "includesStr hay needle = sublist needle hay"
  by (induction hay) (simp_all add: sublist_Cons_right)

lemma mset_insertBy: "mset (insertBy cmp x ys) = add_mset x (mset ys)"
  by (induction ys) simp_all

lemma mset_Array_sort: "mset (Array_sort cmp xs) = mset xs"
  by (induction xs) (simp_all add: Array_sort_def mset_insertBy)

lemma mset_view:
  "mset (filteredAndSortedPrizes T ps searchTerm cat order) = mset (filtered T ps searchTerm cat)"
  by (cases order) (simp_all add: filteredAndSortedPrizes_def mset_Array_sort)

lemma filtered_eq:
  "filtered T ps searchTerm cat =
     filter (\<lambda>p. sublist (toLowerCase T (trim searchTerm)) (toLowerCase T (name p)) \<and>
                 (cat = Subete \<or> cat = Only (category p))) ps"
  by (auto simp: filtered_def Let_def includesStr_sublist intro: filter_cong)

lemma Array_sort_Nil: "Array_sort cmp [] = []"
  by (simp add: Array_sort_def)

lemma filtered_App_eq:
  "filtered_App T ps searchTerm cat = filter (keeps_as_stated T searchTerm cat) ps"
  by (auto simp: filtered_App_def keeps_as_stated_def Let_def includesStr_sublist
      intro: filter_cong)

lemma mset_view_App:
  "mset (filteredAndSortedPrizes_App T ps searchTerm cat order) =
     mset (filtered_App T ps searchTerm cat)"
  by (cases order) (simp_all add: filteredAndSortedPrizes_App_def mset_Array_sort)

lemma view_empty_category:
  assumes "\<forall>p\<in>set ps. category p \<noteq> c"
  shows "filteredAndSortedPrizes T ps searchTerm (Only c) order = []"
proof -
  from assms have "filtered T ps searchTerm (Only c) = []"
    by (auto simp: filtered_eq filter_empty_conv)
  then show ?thesis
    by (cases order) (simp_all add: filteredAndSortedPrizes_def Array_sort_Nil)
qed

lemma view_App_empty_category:
  assumes "\<forall>p\<in>set ps. category p \<noteq> c"
  shows "filteredAndSortedPrizes_App T ps searchTerm (Only c) order = []"
proof -
  from assms have "filtered_App T ps searchTerm (Only c) = []"
    by (auto simp: filtered_App_eq keeps_as_stated_def filter_empty_conv)
  then show ?thesis
    by (cases order) (simp_all add: filteredAndSortedPrizes_App_def Array_sort_Nil)
qed

text \<open>
  Claim C8, as amended. In the variant with the delayed save the records kept are
  exactly those whose name, in lower case, contains the search term with the white
  space at its two ends removed, in lower case, and whose category is the selected one
  unless the sentinel is selected. In \<open>src/App.tsx\<close> the records kept are exactly those
  whose name, in lower case, contains the search term as typed, in lower case, and
  whose category is the selected one unless the sentinel is selected. In both
  variants the records are kept in the order of the collection, under every sort
  order the view consists of exactly these records, and a category that no record has
  gives the empty view. The view is a function of the collection and does not change
  it.
\<close>

theorem view_filters_by_name_and_category:
  "filtered T ps searchTerm cat =
     filter (\<lambda>p. sublist (toLowerCase T (trim searchTerm)) (toLowerCase T (name p)) \<and>
                 (cat = Subete \<or> cat = Only (category p))) ps \<and>
   mset (filteredAndSortedPrizes T ps searchTerm cat order) = mset (filtered T ps searchTerm cat) \<and>
   ((\<forall>p\<in>set ps. category p \<noteq> c) \<longrightarrow>
      filteredAndSortedPrizes T ps searchTerm (Only c) order = []) \<and>
   filtered_App T ps searchTerm cat =
     filter (\<lambda>p. sublist (toLowerCase T searchTerm) (toLowerCase T (name p)) \<and>
                 (cat = Subete \<or> cat = Only (category p))) ps \<and>
   filtered_App T ps searchTerm cat = filter (keeps_as_stated T searchTerm cat) ps \<and>
   mset (filteredAndSortedPrizes_App T ps searchTerm cat order) =
     mset (filtered_App T ps searchTerm cat) \<and>
   ((\<forall>p\<in>set ps. category p \<noteq> c) \<longrightarrow>
      filteredAndSortedPrizes_App T ps searchTerm (Only c) order = [])"
proof -
  have a: "filtered_App T ps searchTerm cat =
     filter (\<lambda>p. sublist (toLowerCase T searchTerm) (toLowerCase T (name p)) \<and>
                 (cat = Subete \<or> cat = Only (category p))) ps"
    by (auto simp: filtered_App_def Let_def includesStr_sublist intro: filter_cong)
  show ?thesis
    using filtered_eq [of T ps searchTerm cat] mset_view [of T ps searchTerm cat order]
      view_empty_category [of ps c T searchTerm order] a
      filtered_App_eq [of T ps searchTerm cat] mset_view_App [of T ps searchTerm cat order]
      view_App_empty_category [of ps c T searchTerm order]
    by blast
qed

theorem view_filters_by_name_and_category_witness:
  "category bear \<noteq> Figure \<and> category rabbit \<noteq> Figure \<and>
   filteredAndSortedPrizes sampleText [bear, rabbit] [] (Only Figure) date_desc = [] \<and>
   filteredAndSortedPrizes_App sampleText [bear, rabbit] [] (Only Figure) date_desc = [] \<and>
   filtered sampleText [bear, rabbit, robot] (ascii ''  rA '') (Only Mascot) = [rabbit] \<and>
   filtered_App sampleText [bear, rabbit, robot] (ascii ''  rA '') (Only Mascot) = [] \<and>
   filtered_App sampleText [bear, rabbit, robot] (ascii ''rA'') (Only Mascot) = [rabbit]"
proof -
  note A = view_filters_by_name_and_category
    [of sampleText "[bear, rabbit]" "[]" "Only Figure" date_desc Figure]
  note B = view_filters_by_name_and_category
    [of sampleText "[bear, rabbit, robot]" "ascii ''  rA ''" "Only Mascot" date_desc Figure]
  note C = view_filters_by_name_and_category
    [of sampleText "[bear, rabbit, robot]" "ascii ''rA''" "Only Mascot" date_desc Figure]
  have c: "\<forall>p\<in>set [bear, rabbit]. category p \<noteq> Figure"
    by (simp add: bear_def rabbit_def)
  have t: "toLowerCase sampleText (trim (ascii ''  rA '')) = ascii ''ra''"
    by (simp add: sampleText_def trim_def ascii_def isWhiteSpace_def asciiLower_def)
  have u: "toLowerCase sampleText (ascii ''  rA '') = ascii ''  ra ''"
    "toLowerCase sampleText (ascii ''rA'') = ascii ''ra''"
    by (simp_all add: sampleText_def ascii_def asciiLower_def)
  have n: "toLowerCase sampleText (name bear) = ascii ''bear''"
     "toLowerCase sampleText (name rabbit) = ascii ''rabbit''"
     "toLowerCase sampleText (name robot) = ascii ''robot''"
    by (simp_all add: sampleText_def ascii_def asciiLower_def bear_def rabbit_def robot_def)
  have s: "sublist (ascii ''ra'') (ascii ''rabbit'')"
    by (simp add: includesStr_sublist [symmetric] ascii_def)
  have ns: "\<not> sublist (ascii ''  ra '') (ascii ''rabbit'')"
    by (simp add: includesStr_sublist [symmetric] ascii_def)
  have k: "category bear \<noteq> Mascot" "category rabbit = Mascot" "category robot \<noteq> Mascot"
    by (simp_all add: bear_def rabbit_def robot_def)
  from A c have "filteredAndSortedPrizes sampleText [bear, rabbit] [] (Only Figure) date_desc = []"
    by blast
  moreover from A c have
    "filteredAndSortedPrizes_App sampleText [bear, rabbit] [] (Only Figure) date_desc = []"
    by blast
  moreover from B have "filtered sampleText [bear, rabbit, robot] (ascii ''  rA '') (Only Mascot) =
     filter (\<lambda>p. sublist (toLowerCase sampleText (trim (ascii ''  rA '')))
                   (toLowerCase sampleText (name p)) \<and>
                 (Only Mascot = Subete \<or> Only Mascot = Only (category p))) [bear, rabbit, robot]"
    by blast
  then have "filtered sampleText [bear, rabbit, robot] (ascii ''  rA '') (Only Mascot) = [rabbit]"
    using s k by (simp add: t n)
  moreover from B have
    "filtered_App sampleText [bear, rabbit, robot] (ascii ''  rA '') (Only Mascot) =
     filter (\<lambda>p. sublist (toLowerCase sampleText (ascii ''  rA ''))
                   (toLowerCase sampleText (name p)) \<and>
                 (Only Mascot = Subete \<or> Only Mascot = Only (category p))) [bear, rabbit, robot]"
    by blast
  then have "filtered_App sampleText [bear, rabbit, robot] (ascii ''  rA '') (Only Mascot) = []"
    using ns k by (simp add: u n)
  moreover from C have
    "filtered_App sampleText [bear, rabbit, robot] (ascii ''rA'') (Only Mascot) =
     filter (\<lambda>p. sublist (toLowerCase sampleText (ascii ''rA''))
                   (toLowerCase sampleText (name p)) \<and>
                 (Only Mascot = Subete \<or> Only Mascot = Only (category p))) [bear, rabbit, robot]"
    by blast
  then have "filtered_App sampleText [bear, rabbit, robot] (ascii ''rA'') (Only Mascot) = [rabbit]"
    using s k by (simp add: u n)
  ultimately show ?thesis
    using c by simp
qed

text \<open>
  The claim as first stated, with the search term as typed, fails in the variant with
  the delayed save: a term that begins with a space is not contained in the name
  \<open>Bear\<close>, and the record is kept. At the same input \<open>src/App.tsx\<close> shows nothing, as
  the claim says.
\<close>

theorem view_trims_search_term:
  "filteredAndSortedPrizes sampleText [bear] (ascii '' bear'') Subete date_desc = [bear] \<and>
   \<not> keeps_as_stated sampleText (ascii '' bear'') Subete bear \<and>
   filteredAndSortedPrizes_App sampleText [bear] (ascii '' bear'') Subete date_desc = []"
proof -
  have "\<not> includesStr (ascii ''bear'') (ascii '' bear'')"
    by (simp add: ascii_def)
  then have k: "\<not> keeps_as_stated sampleText (ascii '' bear'') Subete bear"
    by (simp add: keeps_as_stated_def includesStr_sublist sampleText_def asciiLower_def
        bear_def ascii_def)
  have v: "filteredAndSortedPrizes sampleText [bear] (ascii '' bear'') Subete date_desc = [bear]"
    by (simp add: filteredAndSortedPrizes_def filtered_def Array_sort_def sampleText_def
        trim_def isWhiteSpace_def asciiLower_def bear_def ascii_def)
  have "filtered_App sampleText [bear] (ascii '' bear'') Subete = []"
    using k by (simp add: filtered_App_eq)
  then have "filteredAndSortedPrizes_App sampleText [bear] (ascii '' bear'') Subete date_desc = []"
    by (simp add: filteredAndSortedPrizes_App_def Array_sort_Nil)
  with k v show ?thesis
    by simp
qed

text \<open>
  Claim C9, at the input where the code departs from it. Opening a record whose
  quantity is 0 seeds the buffer's quantity with 1, not with the record's value; the
  name is seeded from the record.
\<close>

theorem resetForm_replaces_zero_quantity:
  "quantity bear = Finite 0 \<and>
   form_quantity (resetForm (ascii ''2024-06-01'') (Some bear)) = Finite 1 \<and>
   form_name (resetForm (ascii ''2024-06-01'') (Some bear)) = name bear"
  by (simp add: resetForm_def bear_def strOr_def ascii_def)

lemma insertBy_dateCompare:
  assumes "dateGetTime T (acquisitionDate x) \<noteq> None"
    and "\<forall>y\<in>set ys. dateGetTime T (acquisitionDate y) \<noteq> None"
  shows "insertBy (dateCompare T) x ys =
           insort_key (\<lambda>p. - the (dateGetTime T (acquisitionDate p))) x ys"
  using assms by (induction ys) (auto simp: dateCompare_def)

lemma Array_sort_dateCompare:
  assumes "\<forall>p\<in>set xs. dateGetTime T (acquisitionDate p) \<noteq> None"
  shows "Array_sort (dateCompare T) xs =
           sort_key (\<lambda>p. - the (dateGetTime T (acquisitionDate p))) xs"
  using assms
proof (induction xs)
  case Nil
  show ?case by (simp add: Array_sort_def)
next
  case (Cons x xs)
  let ?f = "\<lambda>p. - the (dateGetTime T (acquisitionDate p))"
  from Cons have ih: "Array_sort (dateCompare T) xs = sort_key ?f xs"
    by simp
  have "Array_sort (dateCompare T) (x # xs) = insertBy (dateCompare T) x (sort_key ?f xs)"
    by (simp add: Array_sort_def ih [symmetric])
  also have "\<dots> = insort_key ?f x (sort_key ?f xs)"
    using Cons.prems by (intro insertBy_dateCompare) simp_all
  finally show ?case
    by (simp add: sort_key_def)
qed

lemma set_filtered: "set (filtered T ps searchTerm cat) \<subseteq> set ps"
  by (auto simp: filtered_def Let_def)

lemma date_desc_sorted:
  assumes "\<forall>p\<in>set xs. dateGetTime T (acquisitionDate p) \<noteq> None"
  shows "sorted_wrt (notEarlier T) (Array_sort (dateCompare T) xs)"
proof -
  let ?f = "\<lambda>p. - the (dateGetTime T (acquisitionDate p))"
  have "sorted (map ?f (sort_key ?f xs))"
    by (rule sorted_sort_key)
  then have s: "sorted_wrt (\<lambda>a b. ?f a \<le> ?f b) (sort_key ?f xs)"
    by (simp add: sorted_map)
  have "sorted_wrt (notEarlier T) (sort_key ?f xs)"
  proof (rule sorted_wrt_mono_rel [OF _ s])
    fix a b assume "a \<in> set (sort_key ?f xs)" "b \<in> set (sort_key ?f xs)" "?f a \<le> ?f b"
    moreover from this assms obtain ta tb
      where "dateGetTime T (acquisitionDate a) = Some ta"
        and "dateGetTime T (acquisitionDate b) = Some tb"
      by fastforce
    ultimately show "notEarlier T a b"
      by (simp add: notEarlier_def)
  qed
  then show ?thesis
    by (simp add: Array_sort_dateCompare [OF assms])
qed

lemma date_desc_stable:
  assumes "\<forall>p\<in>set xs. dateGetTime T (acquisitionDate p) \<noteq> None"
  shows "filter (\<lambda>p. dateGetTime T (acquisitionDate p) = Some t) (Array_sort (dateCompare T) xs) =
         filter (\<lambda>p. dateGetTime T (acquisitionDate p) = Some t) xs"
proof -
  let ?f = "\<lambda>p. - the (dateGetTime T (acquisitionDate p))"
  have e: "(dateGetTime T (acquisitionDate p) = Some t) = (?f p = - t)" if "p \<in> set xs" for p
    using assms that by auto
  have "filter (\<lambda>p. dateGetTime T (acquisitionDate p) = Some t) (sort_key ?f xs) =
        filter (\<lambda>p. ?f p = - t) (sort_key ?f xs)"
    by (rule filter_cong) (simp_all add: e)
  also have "\<dots> = filter (\<lambda>p. ?f p = - t) xs"
    by (rule sort_key_stable)
  also have "\<dots> = filter (\<lambda>p. dateGetTime T (acquisitionDate p) = Some t) xs"
    by (rule filter_cong) (simp_all add: e)
  finally show ?thesis
    by (simp add: Array_sort_dateCompare [OF assms])
qed

lemma sample_dates:
  "isoDateTime (ascii ''2024-01-01'') = Some 1704067200000"
  "isoDateTime (ascii ''2024-06-01'') = Some 1717200000000"
  "isoDateTime (ascii ''2023-12-01'') = Some 1701388800000"
  by (simp_all add: isoDateTime_def ascii_def daysInMonth_def daysFromCivil_def)

lemma sample_times:
  "dateGetTime sampleText (acquisitionDate bear) = Some 1704067200000"
  "dateGetTime sampleText (acquisitionDate rabbit) = Some 1717200000000"
  "dateGetTime sampleText (acquisitionDate robot) = Some 1701388800000"
  by (simp_all add: sampleText_def bear_def rabbit_def robot_def sample_dates)

lemma includesStr_Nil: "includesStr hay [] = True"
  by (cases hay) simp_all

lemma sample_filtered:
  "filtered sampleText ps [] Subete = ps"
  by (simp add: filtered_def Let_def trim_def sampleText_def asciiLower_def includesStr_Nil)

lemma sample_view:
  "filteredAndSortedPrizes sampleText [bear, rabbit, robot] [] Subete date_desc =
     [rabbit, bear, robot]"
  by (simp add: filteredAndSortedPrizes_def sample_filtered Array_sort_def
      dateCompare_def sample_times)

text \<open>
  Claim C7. Under the default order, when every acquisition date is a valid date, the
  view holds the filtered records ordered from the latest date to the earliest, and
  records of one date stand in the order they have in the collection. Records dated
  2024-01-01, 2024-06-01 and 2023-12-01 come out as 2024-06-01, 2024-01-01, 2023-12-01.
\<close>

theorem default_order_is_date_descending:
  "((\<forall>p\<in>set ps. dateGetTime T (acquisitionDate p) \<noteq> None) \<longrightarrow>
      mset (filteredAndSortedPrizes T ps searchTerm cat date_desc) =
        mset (filtered T ps searchTerm cat) \<and>
      sorted_wrt (notEarlier T) (filteredAndSortedPrizes T ps searchTerm cat date_desc) \<and>
      (\<forall>t. filter (\<lambda>p. dateGetTime T (acquisitionDate p) = Some t)
              (filteredAndSortedPrizes T ps searchTerm cat date_desc) =
           filter (\<lambda>p. dateGetTime T (acquisitionDate p) = Some t)
              (filtered T ps searchTerm cat))) \<and>
   map acquisitionDate
     (filteredAndSortedPrizes sampleText [bear, rabbit, robot] [] Subete date_desc) =
     [ascii ''2024-06-01'', ascii ''2024-01-01'', ascii ''2023-12-01'']"
proof -
  have v: "\<forall>p\<in>set (filtered T ps searchTerm cat). dateGetTime T (acquisitionDate p) \<noteq> None"
    if "\<forall>p\<in>set ps. dateGetTime T (acquisitionDate p) \<noteq> None"
    using that set_filtered [of T ps searchTerm cat] by blast
  have d: "filteredAndSortedPrizes T ps searchTerm cat date_desc =
             Array_sort (dateCompare T) (filtered T ps searchTerm cat)"
    by (simp add: filteredAndSortedPrizes_def)
  have x: "map acquisitionDate
     (filteredAndSortedPrizes sampleText [bear, rabbit, robot] [] Subete date_desc) =
     [ascii ''2024-06-01'', ascii ''2024-01-01'', ascii ''2023-12-01'']"
    by (simp add: sample_view) (simp add: bear_def rabbit_def robot_def)
  show ?thesis
    unfolding d using v x [unfolded d]
    by (simp add: mset_Array_sort date_desc_sorted date_desc_stable)
qed

theorem default_order_is_date_descending_witness:
  "dateGetTime sampleText (acquisitionDate bear) = Some 1704067200000 \<and>
   sorted_wrt (notEarlier sampleText)
     (filteredAndSortedPrizes sampleText [bear, bear\<lparr>prize_id := ascii ''d''\<rparr>, rabbit]
        [] Subete date_desc) \<and>
   filter (\<lambda>p. dateGetTime sampleText (acquisitionDate p) = Some 1704067200000)
     (filteredAndSortedPrizes sampleText [bear, bear\<lparr>prize_id := ascii ''d''\<rparr>, rabbit]
        [] Subete date_desc) = [bear, bear\<lparr>prize_id := ascii ''d''\<rparr>]"
proof -
  let ?ps = "[bear, bear\<lparr>prize_id := ascii ''d''\<rparr>, rabbit]"
  note A = default_order_is_date_descending [of ?ps sampleText "[]" Subete]
  have b: "dateGetTime sampleText (acquisitionDate bear) = Some 1704067200000"
    by (rule sample_times)
  have r: "dateGetTime sampleText (acquisitionDate rabbit) = Some 1717200000000"
    by (rule sample_times)
  have h: "\<forall>p\<in>set ?ps. dateGetTime sampleText (acquisitionDate p) \<noteq> None"
    using b r by simp
  have f: "filtered sampleText ?ps [] Subete = ?ps"
    by (rule sample_filtered)
  from A h have
    "sorted_wrt (notEarlier sampleText) (filteredAndSortedPrizes sampleText ?ps [] Subete date_desc)"
    and "filter (\<lambda>p. dateGetTime sampleText (acquisitionDate p) = Some 1704067200000)
           (filteredAndSortedPrizes sampleText ?ps [] Subete date_desc) =
         filter (\<lambda>p. dateGetTime sampleText (acquisitionDate p) = Some 1704067200000)
           (filtered sampleText ?ps [] Subete)"
    by blast+
  then show ?thesis
    using b r by (simp add: f)
qed


end
